theory Spec2Isabelle
  imports Main "HOL-Library.Word"
begin

unbundle bit_operations_syntax

section \<open>Status values and library helpers\<close>

text \<open>
  A binder \<open>Status\<close> carries an exception code and a message; \<open>Status::ok()\<close> has code 0,
  and \<open>isOk()\<close> tests the code against 0.
\<close>

datatype Status = Status (exceptionCode: int) (exceptionMessage: string)

definition ok :: Status where
  "ok = Status 0 []"

definition fromExceptionCode :: "int \<Rightarrow> string \<Rightarrow> Status" where
  "fromExceptionCode code msg = Status code msg"

definition isOk :: "Status \<Rightarrow> bool" where
  "isOk s = (exceptionCode s = 0)"

definition EINVAL :: int where
  "EINVAL = 22"

text \<open>\<open>std::to_string\<close> on unsigned and on signed integers: the decimal digits.\<close>

fun to_string_nat :: "nat \<Rightarrow> string" where
  "to_string_nat n =
     (if n < 10 then [''0123456789'' ! n]
      else to_string_nat (n div 10) @ [''0123456789'' ! (n mod 10)])"

declare to_string_nat.simps [simp del]

definition to_string :: "int \<Rightarrow> string" where
  "to_string i = (if i < 0 then CHR ''-'' # to_string_nat (nat (- i)) else to_string_nat (nat i))"

section \<open>The checkpoint lifecycle: environment and state\<close>

text \<open>
  The boot-control HAL. \<open>getSuffix\<close> is \<open>None\<close> when the call's \<open>Return\<close> is not
  \<open>isOk()\<close> (the callback is then never run).
\<close>

datatype BoolResult = FALSE | TRUE | INVALID_SLOT

record IBootControl =
  getCurrentSlot :: "32 word"
  getSuffix :: "32 word \<Rightarrow> string option"
  isSlotMarkedSuccessful :: "32 word \<Rightarrow> BoolResult"

record FstabEntry =
  blk_device :: string
  mount_point :: string
  fs_type :: string
  flags :: "64 word"
  fs_options :: string
  checkpoint_blk :: bool
  checkpoint_fs :: bool

text \<open>
  What the code consumes from outside the file: the HAL service (absent when
  \<open>getService()\<close> returns null), \<open>android::base::ParseInt\<close>, the default fstab, the
  mount table read from \<open>/proc/mounts\<close> (\<open>None\<close> when it cannot be read), which system
  calls fail, and the value \<open>errno\<close> holds after a failed call.
\<close>

record environment =
  getService :: "IBootControl option"
  ParseInt :: "string \<Rightarrow> int option"
  fstab_default :: "FstabEntry list"
  proc_mounts :: "FstabEntry list option"
  mount_fails :: "string \<Rightarrow> string \<Rightarrow> 64 word \<Rightarrow> string \<Rightarrow> bool"
  read_fails :: "string \<Rightarrow> bool"
  write_fails :: "string \<Rightarrow> bool"
  remove_fails :: "string \<Rightarrow> string option"
  errno :: int

text \<open>
  A block device is its bytes, by byte offset. Its size is the number of its bytes and
  does not change.
\<close>

type_synonym device = "8 word list"

text \<open>
  The mutable state: regular files by path (the metadata file and the bow state files),
  the process-wide flag \<open>isCheckpointing\<close>, system properties, the remounts performed, and
  the block devices by path.
\<close>

record world =
  files :: "string \<rightharpoonup> string"
  isCheckpointing :: bool
  properties :: "string \<rightharpoonup> string"
  remounts :: "(string \<times> string \<times> string \<times> 64 word \<times> string) list"
  block_devices :: "string \<rightharpoonup> device"

definition kMetadataCPFile :: string where
  "kMetadataCPFile = ''/metadata/vold/checkpoint''"

definition ReadFileToString :: "environment \<Rightarrow> world \<Rightarrow> string \<Rightarrow> string option" where
  "ReadFileToString env w path = (if read_fails env path then None else files w path)"

text \<open>A write that fails is taken to leave the file as it was.\<close>

definition WriteStringToFile :: "environment \<Rightarrow> string \<Rightarrow> string \<Rightarrow> world \<Rightarrow> bool \<times> world" where
  "WriteStringToFile env content path w =
     (if write_fails env path then (False, w)
      else (True, w\<lparr>files := (files w)(path \<mapsto> content)\<rparr>))"

text \<open>\<open>RemoveFileIfExists\<close>: \<open>Some err\<close> is the failure with its message \<open>err_str\<close>.\<close>

definition RemoveFileIfExists :: "environment \<Rightarrow> string \<Rightarrow> world \<Rightarrow> string option \<times> world" where
  "RemoveFileIfExists env path w =
     (case files w path of
        None \<Rightarrow> (None, w)
      | Some c \<Rightarrow>
          (case remove_fails env path of
             Some err_str \<Rightarrow> (Some err_str, w)
           | None \<Rightarrow> (None, w\<lparr>files := (files w)(path := None)\<rparr>)))"

definition SetProperty :: "string \<Rightarrow> string \<Rightarrow> world \<Rightarrow> world" where
  "SetProperty key v w = w\<lparr>properties := (properties w)(key \<mapsto> v)\<rparr>"

definition MS_REMOUNT :: "64 word" where
  "MS_REMOUNT = 32"

definition mount :: "environment \<Rightarrow> string \<Rightarrow> string \<Rightarrow> string \<Rightarrow> 64 word \<Rightarrow> string \<Rightarrow> world \<Rightarrow> bool \<times> world" where
  "mount env src target fstype mountflags data w =
     (if mount_fails env src target mountflags data then (False, w)
      else (True, w\<lparr>remounts := remounts w @ [(src, target, fstype, mountflags, data)]\<rparr>))"

definition GetEntryForMountPoint :: "FstabEntry list \<Rightarrow> string \<Rightarrow> FstabEntry option" where
  "GetEntryForMountPoint fstab path = find (\<lambda>entry. mount_point entry = path) fstab"

section \<open>The checkpoint lifecycle: operations\<close>

definition setBowState :: "environment \<Rightarrow> string \<Rightarrow> string \<Rightarrow> world \<Rightarrow> bool \<times> world" where
  "setBowState env block_device state w =
     (if take 5 block_device \<noteq> ''/dev/'' then (False, w)
      else WriteStringToFile env state (''/sys/'' @ drop 5 block_device @ ''/bow/state'') w)"

text \<open>
  Undefined behaviour of C++ (the overflow of a signed integer, an access outside the
  buffer it indexes) is a result of its own in the model.
\<close>

datatype 'a outcome = Defined 'a | Undefined

text \<open>
  \<open>retry\<close> is a C++ \<open>int\<close>, and \<open>retry + 1\<close> overflows for \<open>INT_MAX\<close>, which is \<open>2^31 - 1\<close>.
\<close>

definition cp_startCheckpoint :: "environment \<Rightarrow> world \<Rightarrow> int \<Rightarrow> (Status \<times> world) outcome" where
  "cp_startCheckpoint env w retry =
     (if retry < - 1
      then Defined (fromExceptionCode EINVAL ''Retry count must be more than -1'', w)
      else if retry \<ge> 2147483647 then Undefined
      else
        let content = to_string (retry + 1);
            content' =
              (if retry = - 1 then
                 (case getService env of
                    None \<Rightarrow> content
                  | Some module \<Rightarrow>
                      (case getSuffix module (getCurrentSlot module) of
                         None \<Rightarrow> content
                       | Some suffix \<Rightarrow> content @ '' '' @ suffix))
               else content);
            (written, w') = WriteStringToFile env content' kMetadataCPFile w
        in if \<not> written
           then Defined (fromExceptionCode (errno env) ''Failed to write checkpoint file'', w')
           else Defined (ok, w'))"

text \<open>The walk over the mounted file systems; \<open>Some s\<close> is an early return of \<open>s\<close>.\<close>

fun commit_mounts :: "environment \<Rightarrow> FstabEntry list \<Rightarrow> world \<Rightarrow> Status option \<times> world" where
  "commit_mounts env [] w = (None, w)"
| "commit_mounts env (mount_rec # rest) w =
     (case GetEntryForMountPoint (fstab_default env) (mount_point mount_rec) of
        None \<Rightarrow> commit_mounts env rest w
      | Some fstab_rec \<Rightarrow>
          if checkpoint_fs fstab_rec then
            (if fs_type fstab_rec = ''f2fs'' then
               (let options = fs_options mount_rec @ '',checkpoint=enable'';
                    (mounted, w') = mount env (blk_device mount_rec) (mount_point mount_rec) ''none''
                                      (MS_REMOUNT OR flags fstab_rec) options w
                in if \<not> mounted then (Some (fromExceptionCode EINVAL ''Failed to remount''), w')
                   else commit_mounts env rest w')
             else commit_mounts env rest w)
          else if checkpoint_blk fstab_rec then
            (let (written, w') = setBowState env (blk_device mount_rec) ''2'' w
             in if \<not> written then (Some (fromExceptionCode EINVAL ''Failed to set bow state''), w')
                else commit_mounts env rest w')
          else commit_mounts env rest w)"

definition cp_commitChanges :: "environment \<Rightarrow> world \<Rightarrow> Status \<times> world" where
  "cp_commitChanges env w =
     (if \<not> isCheckpointing w then (ok, w)
      else
        (case proc_mounts env of
           None \<Rightarrow> (fromExceptionCode EINVAL ''Failed to get /proc/mounts'', w)
         | Some mounts \<Rightarrow>
             (case commit_mounts env mounts w of
                (Some s, w') \<Rightarrow> (s, w')
              | (None, w') \<Rightarrow>
                  (let w1 = SetProperty ''vold.checkpoint_committed'' ''1'' w';
                       w2 = w1\<lparr>isCheckpointing := False\<rparr>
                   in case RemoveFileIfExists env kMetadataCPFile w2 of
                        (Some err_str, w3) \<Rightarrow> (fromExceptionCode (errno env) err_str, w3)
                      | (None, w3) \<Rightarrow> (ok, w3)))))"

definition cp_needsRollback :: "environment \<Rightarrow> world \<Rightarrow> bool" where
  "cp_needsRollback env w =
     (case ReadFileToString env w kMetadataCPFile of
        None \<Rightarrow> False
      | Some content \<Rightarrow>
          if content = ''0'' then True
          else if take 3 content = ''-1 '' then
            (let oldSuffix = drop 3 content
             in case getService env of
                  None \<Rightarrow> False
                | Some module \<Rightarrow>
                    (let newSuffix = (case getSuffix module (getCurrentSlot module) of
                                        None \<Rightarrow> [] | Some s \<Rightarrow> s)
                     in oldSuffix = newSuffix))
          else False)"

definition cp_needsCheckpoint :: "environment \<Rightarrow> world \<Rightarrow> bool \<times> world" where
  "cp_needsCheckpoint env w =
     (if (case getService env of
            None \<Rightarrow> False
          | Some module \<Rightarrow> isSlotMarkedSuccessful module (getCurrentSlot module) = FALSE)
      then (True, w\<lparr>isCheckpointing := True\<rparr>)
      else
        (case ReadFileToString env w kMetadataCPFile of
           Some content \<Rightarrow>
             (let ret = (content \<noteq> ''0'') in (ret, w\<lparr>isCheckpointing := ret\<rparr>))
         | None \<Rightarrow> (False, w)))"

definition cp_markBootAttempt :: "environment \<Rightarrow> world \<Rightarrow> Status \<times> world" where
  "cp_markBootAttempt env w =
     (if files w kMetadataCPFile = None then (ok, w)
      else
        (case ReadFileToString env w kMetadataCPFile of
           None \<Rightarrow> (fromExceptionCode (errno env) ''Failed to read checkpoint file'', w)
         | Some oldContent \<Rightarrow>
             (let retryContent = takeWhile (\<lambda>c. c \<noteq> CHR '' '') oldContent
              in case ParseInt env retryContent of
                   None \<Rightarrow> (fromExceptionCode EINVAL ''Could not parse retry count'', w)
                 | Some retry \<Rightarrow>
                     if retry > 0 then
                       (let newContent = to_string (retry - 1);
                            (written, w') = WriteStringToFile env newContent kMetadataCPFile w
                        in if \<not> written
                           then (fromExceptionCode (errno env) ''Could not write checkpoint file'', w')
                           else (ok, w'))
                     else (ok, w))))"

section \<open>The bow log\<close>

definition kBlockSize :: nat where
  "kBlockSize = 4096"

definition kSectorSize :: nat where
  "kSectorSize = 512"

text \<open>
  Sector numbers are \<open>uint64_t\<close> and sizes \<open>uint32_t\<close>; their arithmetic wraps. Where
  \<open>kSectorSize\<close> and \<open>kBlockSize / kSectorSize\<close> enter that arithmetic they are written
  as the numerals 512 and 8.
\<close>

record log_entry =
  source :: "64 word"
  dest :: "64 word"
  size_le :: "32 word"
  checksum :: "32 word"

record log_sector =
  magic :: "32 word"
  count :: "32 word"
  sequence :: "32 word"
  sector0 :: "64 word"

definition kMagic :: "32 word" where
  "kMagic = 0x00574f42"

text \<open>
  The packed structures are read out of a byte buffer in host byte order, which is
  little-endian: a 32-bit field at offset \<open>off\<close>, a 64-bit field at offset \<open>off\<close>.
\<close>

definition le32 :: "8 word list \<Rightarrow> nat \<Rightarrow> 32 word" where
  "le32 buf off =
     ucast (buf ! off) OR push_bit 8 (ucast (buf ! (off + 1)))
       OR push_bit 16 (ucast (buf ! (off + 2))) OR push_bit 24 (ucast (buf ! (off + 3)))"

definition le64 :: "8 word list \<Rightarrow> nat \<Rightarrow> 64 word" where
  "le64 buf off = ucast (le32 buf off) OR push_bit 32 (ucast (le32 buf (off + 4)))"

definition log_sector_of :: "8 word list \<Rightarrow> log_sector" where
  "log_sector_of buf =
     \<lparr>magic = le32 buf 0, count = le32 buf 4, sequence = le32 buf 8, sector0 = le64 buf 12\<rparr>"

text \<open>
  \<open>ls.entries[i]\<close>: the header takes 20 bytes and an entry 24; the entry has to lie inside
  the buffer that holds the log sector.
\<close>

definition entry_at :: "8 word list \<Rightarrow> nat \<Rightarrow> log_entry outcome" where
  "entry_at buf i =
     (if 20 + 24 * i + 24 \<le> length buf
      then Defined \<lparr>source = le64 buf (20 + 24 * i), dest = le64 buf (20 + 24 * i + 8),
                    size_le = le32 buf (20 + 24 * i + 16), checksum = le32 buf (20 + 24 * i + 20)\<rparr>
      else Undefined)"

subsection \<open>CRC-32\<close>

definition table :: "32 word list" where
  "table =
    [
     0x00000000, 0x77073096, 0xEE0E612C, 0x990951BA, 0x076DC419, 0x706AF48F,
     0xE963A535, 0x9E6495A3, 0x0EDB8832, 0x79DCB8A4, 0xE0D5E91E, 0x97D2D988,
     0x09B64C2B, 0x7EB17CBD, 0xE7B82D07, 0x90BF1D91, 0x1DB71064, 0x6AB020F2,
     0xF3B97148, 0x84BE41DE, 0x1ADAD47D, 0x6DDDE4EB, 0xF4D4B551, 0x83D385C7,
     0x136C9856, 0x646BA8C0, 0xFD62F97A, 0x8A65C9EC, 0x14015C4F, 0x63066CD9,
     0xFA0F3D63, 0x8D080DF5, 0x3B6E20C8, 0x4C69105E, 0xD56041E4, 0xA2677172,
     0x3C03E4D1, 0x4B04D447, 0xD20D85FD, 0xA50AB56B, 0x35B5A8FA, 0x42B2986C,
     0xDBBBC9D6, 0xACBCF940, 0x32D86CE3, 0x45DF5C75, 0xDCD60DCF, 0xABD13D59,
     0x26D930AC, 0x51DE003A, 0xC8D75180, 0xBFD06116, 0x21B4F4B5, 0x56B3C423,
     0xCFBA9599, 0xB8BDA50F, 0x2802B89E, 0x5F058808, 0xC60CD9B2, 0xB10BE924,
     0x2F6F7C87, 0x58684C11, 0xC1611DAB, 0xB6662D3D, 0x76DC4190, 0x01DB7106,
     0x98D220BC, 0xEFD5102A, 0x71B18589, 0x06B6B51F, 0x9FBFE4A5, 0xE8B8D433,
     0x7807C9A2, 0x0F00F934, 0x9609A88E, 0xE10E9818, 0x7F6A0DBB, 0x086D3D2D,
     0x91646C97, 0xE6635C01, 0x6B6B51F4, 0x1C6C6162, 0x856530D8, 0xF262004E,
     0x6C0695ED, 0x1B01A57B, 0x8208F4C1, 0xF50FC457, 0x65B0D9C6, 0x12B7E950,
     0x8BBEB8EA, 0xFCB9887C, 0x62DD1DDF, 0x15DA2D49, 0x8CD37CF3, 0xFBD44C65,
     0x4DB26158, 0x3AB551CE, 0xA3BC0074, 0xD4BB30E2, 0x4ADFA541, 0x3DD895D7,
     0xA4D1C46D, 0xD3D6F4FB, 0x4369E96A, 0x346ED9FC, 0xAD678846, 0xDA60B8D0,
     0x44042D73, 0x33031DE5, 0xAA0A4C5F, 0xDD0D7CC9, 0x5005713C, 0x270241AA,
     0xBE0B1010, 0xC90C2086, 0x5768B525, 0x206F85B3, 0xB966D409, 0xCE61E49F,
     0x5EDEF90E, 0x29D9C998, 0xB0D09822, 0xC7D7A8B4, 0x59B33D17, 0x2EB40D81,
     0xB7BD5C3B, 0xC0BA6CAD, 0xEDB88320, 0x9ABFB3B6, 0x03B6E20C, 0x74B1D29A,
     0xEAD54739, 0x9DD277AF, 0x04DB2615, 0x73DC1683, 0xE3630B12, 0x94643B84,
     0x0D6D6A3E, 0x7A6A5AA8, 0xE40ECF0B, 0x9309FF9D, 0x0A00AE27, 0x7D079EB1,
     0xF00F9344, 0x8708A3D2, 0x1E01F268, 0x6906C2FE, 0xF762575D, 0x806567CB,
     0x196C3671, 0x6E6B06E7, 0xFED41B76, 0x89D32BE0, 0x10DA7A5A, 0x67DD4ACC,
     0xF9B9DF6F, 0x8EBEEFF9, 0x17B7BE43, 0x60B08ED5, 0xD6D6A3E8, 0xA1D1937E,
     0x38D8C2C4, 0x4FDFF252, 0xD1BB67F1, 0xA6BC5767, 0x3FB506DD, 0x48B2364B,
     0xD80D2BDA, 0xAF0A1B4C, 0x36034AF6, 0x41047A60, 0xDF60EFC3, 0xA867DF55,
     0x316E8EEF, 0x4669BE79, 0xCB61B38C, 0xBC66831A, 0x256FD2A0, 0x5268E236,
     0xCC0C7795, 0xBB0B4703, 0x220216B9, 0x5505262F, 0xC5BA3BBE, 0xB2BD0B28,
     0x2BB45A92, 0x5CB36A04, 0xC2D7FFA7, 0xB5D0CF31, 0x2CD99E8B, 0x5BDEAE1D,
     0x9B64C2B0, 0xEC63F226, 0x756AA39C, 0x026D930A, 0x9C0906A9, 0xEB0E363F,
     0x72076785, 0x05005713, 0x95BF4A82, 0xE2B87A14, 0x7BB12BAE, 0x0CB61B38,
     0x92D28E9B, 0xE5D5BE0D, 0x7CDCEFB7, 0x0BDBDF21, 0x86D3D2D4, 0xF1D4E242,
     0x68DDB3F8, 0x1FDA836E, 0x81BE16CD, 0xF6B9265B, 0x6FB077E1, 0x18B74777,
     0x88085AE6, 0xFF0F6A70, 0x66063BCA, 0x11010B5C, 0x8F659EFF, 0xF862AE69,
     0x616BFFD3, 0x166CCF45, 0xA00AE278, 0xD70DD2EE, 0x4E048354, 0x3903B3C2,
     0xA7672661, 0xD06016F7, 0x4969474D, 0x3E6E77DB, 0xAED16A4A, 0xD9D65ADC,
     0x40DF0B66, 0x37D83BF0, 0xA9BCAE53, 0xDEBB9EC5, 0x47B2CF7F, 0x30B5FFE9,
     0xBDBDF21C, 0xCABAC28A, 0x53B39330, 0x24B4A3A6, 0xBAD03605, 0xCDD70693,
     0x54DE5729, 0x23D967BF, 0xB3667A2E, 0xC4614AB8, 0x5D681B02, 0x2A6F2B94,
     0xB40BBE37, 0xC30C8EA1, 0x5A05DF1B, 0x2D02EF8D]"

text \<open>One round of the loop of \<open>crc32\<close>, on the byte \<open>b\<close>.\<close>

definition crc32_byte :: "8 word \<Rightarrow> 32 word \<Rightarrow> 32 word" where
  "crc32_byte b crc =
     (let crc' = crc XOR ucast b
      in (table ! unat (ucast crc' :: 8 word)) XOR drop_bit 8 crc')"

definition crc32 :: "8 word list \<Rightarrow> nat \<Rightarrow> 32 word \<Rightarrow> 32 word" where
  "crc32 data n_bytes crc = fold crc32_byte (take n_bytes data) crc"

text \<open>
  The loop over the payload of an entry: \<open>crc32(&buffer[i], kBlockSize, &checksum)\<close> for
  \<open>i = 0, 4096, ...\<close> below \<open>sz\<close>. A block that does not lie inside the buffer is read out
  of bounds.
\<close>

function crc32_blocks :: "8 word list \<Rightarrow> nat \<Rightarrow> nat \<Rightarrow> 32 word \<Rightarrow> 32 word outcome" where
  "crc32_blocks buffer sz i crc =
     (if i < sz then
        (if i + kBlockSize \<le> length buffer
         then crc32_blocks buffer sz (i + kBlockSize) (crc32 (drop i buffer) kBlockSize crc)
         else Undefined)
      else Defined crc)"
  by pat_completeness auto
termination
  by (relation "measure (\<lambda>(buffer, sz, i, crc). sz - i)") (auto simp: kBlockSize_def)

declare crc32_blocks.simps [simp del]

subsection \<open>The stream on the device\<close>

text \<open>
  The bytes \<open>n\<close> bytes long at the offset \<open>off\<close> of a device, and the device with the bytes
  \<open>bs\<close> put at the offset \<open>off\<close>.
\<close>

definition span :: "device \<Rightarrow> nat \<Rightarrow> nat \<Rightarrow> 8 word list" where
  "span dev off n = take n (drop off dev)"

definition overwrite :: "device \<Rightarrow> nat \<Rightarrow> 8 word list \<Rightarrow> device" where
  "overwrite dev off bs = take off dev @ bs @ drop (off + length bs) dev"

text \<open>
  The program reaches the device through a \<open>std::fstream\<close>, opened anew for each pass, and
  never tests it after a seek or a transfer. The stream keeps an error state: once a
  seek or a transfer has failed, every later \<open>seekg\<close>, \<open>read\<close> and \<open>write\<close> on it returns
  without doing anything. The model keeps the bytes of the device and that state.
\<close>

record fstream =
  bytes :: device
  failed :: bool

definition fstream_open :: "device \<Rightarrow> fstream" where
  "fstream_open dev = \<lparr>bytes = dev, failed = False\<rparr>"

text \<open>
  \<open>device.seekg(off)\<close> with the 64-bit value \<open>off\<close>: the offset is a signed 64-bit
  number for the stream, and a block device refuses a position behind its end.
\<close>

definition seekable :: "fstream \<Rightarrow> 64 word \<Rightarrow> bool" where
  "seekable s off = (unat off < 2 ^ 63 \<and> unat off \<le> length (bytes s))"

text \<open>
  Every transfer of the program follows a \<open>seekg\<close>, so the model takes the two calls
  together. \<open>device.seekg(off); device.read(buffer, n)\<close>, where \<open>buffer\<close> is the \<open>n\<close> bytes
  that the destination holds before the call: the result is what it holds afterwards,
  and the stream. A read that meets the end of the device stores the bytes it got and
  fails.
\<close>

definition device_read :: "fstream \<Rightarrow> 64 word \<Rightarrow> 8 word list \<Rightarrow> 8 word list \<times> fstream" where
  "device_read s off buffer =
     (if failed s then (buffer, s)
      else if \<not> seekable s off then (buffer, s\<lparr>failed := True\<rparr>)
      else
        (let got = span (bytes s) (unat off) (length buffer)
         in if length got = length buffer then (got, s)
            else (got @ drop (length got) buffer, s\<lparr>failed := True\<rparr>)))"

text \<open>
  \<open>device.seekg(off); device.write(buffer, n)\<close> with the \<open>n\<close> bytes \<open>buffer\<close>. A write that
  meets the end of the device stores the bytes that fit and fails.
\<close>

definition device_write :: "fstream \<Rightarrow> 64 word \<Rightarrow> 8 word list \<Rightarrow> fstream" where
  "device_write s off buffer =
     (if failed s then s
      else if \<not> seekable s off then s\<lparr>failed := True\<rparr>
      else if unat off + length buffer \<le> length (bytes s)
      then s\<lparr>bytes := overwrite (bytes s) (unat off) buffer\<rparr>
      else s\<lparr>bytes := overwrite (bytes s) (unat off) (take (length (bytes s) - unat off) buffer),
              failed := True\<rparr>)"

subsection \<open>Reading through the log\<close>

text \<open>The test of the remapping loop: does the entry \<open>l\<close> redirect \<open>sector\<close>?\<close>

definition covers :: "log_entry \<Rightarrow> 64 word \<Rightarrow> bool" where
  "covers l sector = (sector \<ge> source l \<and> (sector - source l) * 512 < ucast (size_le l))"

definition remap :: "log_entry \<Rightarrow> 64 word \<Rightarrow> 64 word" where
  "remap l sector = (if covers l sector then sector - source l + dest l else sector)"

text \<open>The loop from \<open>logs.rbegin()\<close> to \<open>logs.rend()\<close>.\<close>

definition remap_sector :: "log_entry list \<Rightarrow> 64 word \<Rightarrow> 64 word" where
  "remap_sector logs sector = fold remap (rev logs) sector"

text \<open>
  The first \<open>read\<close>: one block, from where the log sends \<open>sector\<close>, into the 4096 bytes
  \<open>block\<close> of the caller's buffer.
\<close>

definition read_sector ::
  "fstream \<Rightarrow> log_entry list \<Rightarrow> 64 word \<Rightarrow> 8 word list \<Rightarrow> 8 word list \<times> fstream" where
  "read_sector s logs sector block = device_read s (remap_sector logs sector * 512) block"

text \<open>
  The loop of the second \<open>read\<close>: \<open>read(device, logs, sector, &buffer[i])\<close> stores a whole
  block at \<open>buffer[i]\<close>, which overruns the buffer when fewer than 4096 bytes remain.
\<close>

function read_blocks ::
  "fstream \<Rightarrow> log_entry list \<Rightarrow> nat \<Rightarrow> nat \<Rightarrow> 64 word \<Rightarrow> 8 word list
     \<Rightarrow> (8 word list \<times> fstream) outcome" where
  "read_blocks s logs sz i sector buffer =
     (if i < sz then
        (if i + kBlockSize \<le> length buffer
         then read_blocks (snd (read_sector s logs sector (span buffer i kBlockSize)))
                logs sz (i + kBlockSize) (sector + 8)
                (overwrite buffer i (fst (read_sector s logs sector (span buffer i kBlockSize))))
         else Undefined)
      else Defined (buffer, s))"
  by pat_completeness auto
termination
  by (relation "measure (\<lambda>(s, logs, sz, i, sector, buffer). sz - i)") (auto simp: kBlockSize_def)

declare read_blocks.simps [simp del]

text \<open>
  The second \<open>read\<close>. The buffer is a vector of \<open>size\<close> bytes, which are zero until a
  transfer stores others.
\<close>

definition read ::
  "fstream \<Rightarrow> log_entry list \<Rightarrow> bool \<Rightarrow> 64 word \<Rightarrow> 32 word \<Rightarrow> (8 word list \<times> fstream) outcome" where
  "read s logs validating sector sz =
     (if \<not> validating then Defined (device_read s (sector * 512) (replicate (unat sz) 0))
      else read_blocks s logs (unat sz) 0 sector (replicate (unat sz) 0))"

subsection \<open>Restore\<close>

record restore_state =
  st_status :: Status
  st_logs :: "log_entry list"
  st_device :: fstream

text \<open>
  The checksum of a payload: the register starts from \<open>le->source / 8\<close>, cut to 32 bits,
  and runs over the blocks of the buffer. Then the body of the loop over the entries of
  a log sector.
\<close>

definition payload_checksum :: "log_entry \<Rightarrow> 8 word list \<Rightarrow> 32 word outcome" where
  "payload_checksum le buffer = crc32_blocks buffer (unat (size_le le)) 0 (ucast (source le div 8))"

definition restore_entry :: "bool \<Rightarrow> log_entry \<Rightarrow> restore_state \<Rightarrow> restore_state outcome" where
  "restore_entry validating le st =
     (case read (st_device st) (st_logs st) validating (dest le) (size_le le) of
        Undefined \<Rightarrow> Undefined
      | Defined (buffer, s) \<Rightarrow>
          (case payload_checksum le buffer of
             Undefined \<Rightarrow> Undefined
           | Defined crc \<Rightarrow>
               if checksum le \<noteq> 0 \<and> crc \<noteq> checksum le
               then Defined (st\<lparr>st_status := fromExceptionCode EINVAL ''Checksums don't match'',
                                 st_device := s\<rparr>)
               else Defined (st\<lparr>st_logs := st_logs st @ [le],
                                 st_device := (if validating then s
                                               else device_write s (source le * 512) buffer)\<rparr>)))"

text \<open>
  The loop \<open>for (le = &ls.entries[ls.count - 1]; le >= ls.entries; --le)\<close>, from the index
  \<open>i\<close> down to 0; it stops at the first entry that leaves a failed status.
\<close>

fun entries_loop :: "bool \<Rightarrow> 8 word list \<Rightarrow> nat \<Rightarrow> restore_state \<Rightarrow> restore_state outcome" where
  "entries_loop validating buffer 0 st =
     (case entry_at buffer 0 of
        Undefined \<Rightarrow> Undefined
      | Defined le \<Rightarrow> restore_entry validating le st)"
| "entries_loop validating buffer (Suc i) st =
     (case entry_at buffer (Suc i) of
        Undefined \<Rightarrow> Undefined
      | Defined le \<Rightarrow>
          (case restore_entry validating le st of
             Undefined \<Rightarrow> Undefined
           | Defined st' \<Rightarrow>
               if isOk (st_status st') then entries_loop validating buffer i st'
               else Defined st'))"

text \<open>
  The loop over the log sectors, \<open>seq\<close> (an \<open>int\<close>) counting down from the sequence number
  of the header to 0. The index of the last entry is \<open>ls.count - 1\<close> in unsigned 32-bit
  arithmetic, widened to the 64 bits of a pointer: for \<open>count = 0\<close> it is \<open>2^32 - 1\<close>, an
  entry far outside the buffer.
\<close>

function sequence_loop :: "bool \<Rightarrow> int \<Rightarrow> restore_state \<Rightarrow> restore_state outcome" where
  "sequence_loop validating seq st =
     (if seq \<ge> 0 \<and> isOk (st_status st) then
        (case read (st_device st) (st_logs st) validating 0 (of_nat kBlockSize) of
           Undefined \<Rightarrow> Undefined
         | Defined (buffer, s) \<Rightarrow>
             (let ls = log_sector_of buffer
              in if magic ls \<noteq> kMagic
                 then Defined (st\<lparr>st_status := fromExceptionCode EINVAL ''No magic'',
                                   st_device := s\<rparr>)
                 else if sint (sequence ls) \<noteq> seq
                 then Defined (st\<lparr>st_status := fromExceptionCode EINVAL
                                  (''Expecting log sector '' @ to_string seq @ '' but got ''
                                     @ to_string_nat (unat (sequence ls))),
                                   st_device := s\<rparr>)
                 else
                   (case entries_loop validating buffer (unat (count ls - 1)) (st\<lparr>st_device := s\<rparr>) of
                      Undefined \<Rightarrow> Undefined
                    | Defined st' \<Rightarrow> sequence_loop validating (seq - 1) st')))
      else Defined st)"
  by pat_completeness auto
termination
  by (relation "measure (\<lambda>(validating, seq, st). nat (seq + 1))") auto

declare sequence_loop.simps [simp del]

text \<open>
  The roll-forward after a failed validation, on the stream of the validation pass: the
  block that the header names as \<open>sector0\<close> is read and written to sector 0.
\<close>

definition roll_forward :: "fstream \<Rightarrow> log_entry list \<Rightarrow> log_sector \<Rightarrow> fstream outcome" where
  "roll_forward s logs ls =
     (case read s logs False (sector0 ls) (of_nat kBlockSize) of
        Undefined \<Rightarrow> Undefined
      | Defined (buffer, s') \<Rightarrow> Defined (device_write s' 0 buffer))"

text \<open>
  One round of the \<open>for (;;)\<close> loop. \<open>Some s\<close> is a return of \<open>s\<close> from the function; \<open>None\<close>
  is the end of the loop body. The stream is opened at the start of the round and
  closed at its end, which leaves the bytes of the device.
\<close>

definition restore_pass ::
  "environment \<Rightarrow> world \<Rightarrow> string \<Rightarrow> bool \<Rightarrow> (Status option \<times> world) outcome" where
  "restore_pass env w blockDevice validating =
     (case block_devices w blockDevice of
        None \<Rightarrow> Defined (Some (fromExceptionCode (errno env) (''Cannot open '' @ blockDevice)), w)
      | Some dev \<Rightarrow>
          (case read (fstream_open dev) [] validating 0 (of_nat kBlockSize) of
             Undefined \<Rightarrow> Undefined
           | Defined (buffer, s) \<Rightarrow>
               (let ls = log_sector_of buffer
                in if magic ls \<noteq> kMagic
                   then Defined (Some (fromExceptionCode EINVAL ''No magic''), w)
                   else
                     (case sequence_loop validating (sint (sequence ls))
                             \<lparr>st_status = ok, st_logs = [], st_device = s\<rparr> of
                        Undefined \<Rightarrow> Undefined
                      | Defined st \<Rightarrow>
                          if \<not> isOk (st_status st) then
                            (if \<not> validating
                             then Defined (Some (st_status st),
                                    w\<lparr>block_devices :=
                                        (block_devices w)(blockDevice \<mapsto> bytes (st_device st))\<rparr>)
                             else
                               (case roll_forward (st_device st) (st_logs st) ls of
                                  Undefined \<Rightarrow> Undefined
                                | Defined s' \<Rightarrow>
                                    Defined (Some ok,
                                      w\<lparr>block_devices := (block_devices w)(blockDevice \<mapsto> bytes s')\<rparr>)))
                          else Defined (None,
                                 w\<lparr>block_devices :=
                                     (block_devices w)(blockDevice \<mapsto> bytes (st_device st))\<rparr>)))))"

definition cp_restoreCheckpoint :: "environment \<Rightarrow> world \<Rightarrow> string \<Rightarrow> (Status \<times> world) outcome" where
  "cp_restoreCheckpoint env w blockDevice =
     (case restore_pass env w blockDevice True of
        Undefined \<Rightarrow> Undefined
      | Defined (Some s, w') \<Rightarrow> Defined (s, w')
      | Defined (None, w') \<Rightarrow>
          (case restore_pass env w' blockDevice False of
             Undefined \<Rightarrow> Undefined
           | Defined (Some s, w'') \<Rightarrow> Defined (s, w'')
           | Defined (None, w'') \<Rightarrow> Defined (ok, w'')))"
section \<open>CRC-32 as the specification words it\<close>

text \<open>
  The reflected CRC-32 of the polynomial \<open>0xEDB88320\<close>, bit by bit: the register moves
  one place to the right and the polynomial is added when the bit that leaves is set. A
  byte is added to the low end of the register and eight such steps follow. A block is
  folded byte by byte, with no reset before it and no final complement after it.
\<close>

definition crc32_poly :: "32 word" where
  "crc32_poly = 0xEDB88320"

definition crc32_shift :: "32 word \<Rightarrow> 32 word" where
  "crc32_shift c = (if bit c 0 then drop_bit 1 c XOR crc32_poly else drop_bit 1 c)"

definition crc32_shift8 :: "32 word \<Rightarrow> 32 word" where
  "crc32_shift8 c =
     crc32_shift (crc32_shift (crc32_shift (crc32_shift
       (crc32_shift (crc32_shift (crc32_shift (crc32_shift c)))))))"

definition crc32_update :: "8 word \<Rightarrow> 32 word \<Rightarrow> 32 word" where
  "crc32_update b c = crc32_shift8 (c XOR ucast b)"

definition fold_block :: "8 word list \<Rightarrow> 32 word \<Rightarrow> 32 word" where
  "fold_block blk c = fold crc32_update blk c"

text \<open>The blocks \<open>b_1, ..., b_k\<close> of a payload of \<open>k\<close> blocks.\<close>

definition payload_blocks :: "nat \<Rightarrow> 8 word list \<Rightarrow> 8 word list list" where
  "payload_blocks k buffer = map (\<lambda>j. take kBlockSize (drop (j * kBlockSize) buffer)) [0..<k]"

text \<open>A list holds the table entries of the indices \<open>w, w + 1, ...\<close>.\<close>

fun table_from :: "32 word \<Rightarrow> 32 word list \<Rightarrow> bool" where
  "table_from w [] = True"
| "table_from w (t # ts) = (crc32_shift8 w = t \<and> table_from (w + 1) ts)"

section \<open>Logs that replay the same way twice\<close>

text \<open>
  The byte ranges of an entry: its payload is kept at \<open>dest\<close> and belongs at \<open>source\<close>.
\<close>

definition src_off :: "log_entry \<Rightarrow> nat" where
  "src_off e = unat (source e) * kSectorSize"

definition dst_off :: "log_entry \<Rightarrow> nat" where
  "dst_off e = unat (dest e) * kSectorSize"

definition payload :: "device \<Rightarrow> log_entry \<Rightarrow> 8 word list" where
  "payload dev e = span dev (dst_off e) (unat (size_le e))"

text \<open>
  An entry of whole blocks that starts at a block boundary and lies inside the device,
  with both of its ranges.
\<close>

definition plain :: "device \<Rightarrow> log_entry \<Rightarrow> bool" where
  "plain dev e =
     (kBlockSize dvd unat (size_le e) \<and> 8 dvd unat (source e)
      \<and> src_off e + unat (size_le e) \<le> length dev
      \<and> dst_off e + unat (size_le e) \<le> length dev)"

text \<open>The range that \<open>e\<close> writes does not meet the range that \<open>e'\<close> reads.\<close>

definition apart :: "log_entry \<Rightarrow> log_entry \<Rightarrow> bool" where
  "apart e e' =
     (src_off e + unat (size_le e) \<le> dst_off e' \<or> dst_off e' + unat (size_le e') \<le> src_off e)"






section \<open>Example environments and states\<close>

text \<open>
  Concrete inputs on which the theorems below are run: a boot-control HAL whose current
  slot has the suffix \<open>_a\<close>, a decimal parser standing for \<open>ParseInt\<close>, an environment
  in which no call fails, and worlds with and without the metadata file.
\<close>

definition hal_a :: IBootControl where
  "hal_a = \<lparr>getCurrentSlot = 0, getSuffix = (\<lambda>slot. Some ''_a''),
            isSlotMarkedSuccessful = (\<lambda>slot. TRUE)\<rparr>"

definition hal_unsuccessful :: IBootControl where
  "hal_unsuccessful = hal_a\<lparr>isSlotMarkedSuccessful := (\<lambda>slot. FALSE)\<rparr>"

definition digit_of :: "char \<Rightarrow> nat option" where
  "digit_of c = map_of (zip ''0123456789'' [0, 1, 2, 3, 4, 5, 6, 7, 8, 9]) c"

fun parse_digits :: "nat \<Rightarrow> string \<Rightarrow> nat option" where
  "parse_digits acc [] = Some acc"
| "parse_digits acc (c # cs) =
     (case digit_of c of None \<Rightarrow> None | Some d \<Rightarrow> parse_digits (10 * acc + d) cs)"

definition parse_decimal :: "string \<Rightarrow> int option" where
  "parse_decimal s =
     (case s of
        [] \<Rightarrow> None
      | c # cs \<Rightarrow>
          if c = CHR ''-'' then (if cs = [] then None else map_option (\<lambda>n. - int n) (parse_digits 0 cs))
          else map_option int (parse_digits 0 s))"

definition env_a :: environment where
  "env_a = \<lparr>getService = Some hal_a, ParseInt = parse_decimal, fstab_default = [],
            proc_mounts = Some [], mount_fails = (\<lambda>src target mountflags data. False),
            read_fails = (\<lambda>path. False), write_fails = (\<lambda>path. False),
            remove_fails = (\<lambda>path. None), errno = 5\<rparr>"

definition world_idle :: world where
  "world_idle = \<lparr>files = Map.empty, isCheckpointing = False, properties = Map.empty,
                 remounts = [], block_devices = Map.empty\<rparr>"

definition world_armed :: "string \<Rightarrow> bool \<Rightarrow> world" where
  "world_armed content flag =
     world_idle\<lparr>files := [kMetadataCPFile \<mapsto> content], isCheckpointing := flag\<rparr>"

definition fstab_ex :: "FstabEntry list" where
  "fstab_ex =
     [\<lparr>blk_device = ''/dev/block/dm-0'', mount_point = ''/data'', fs_type = ''f2fs'', flags = 1024,
       fs_options = ''rw'', checkpoint_blk = False, checkpoint_fs = True\<rparr>,
      \<lparr>blk_device = ''/dev/block/dm-1'', mount_point = ''/mnt/x'', fs_type = ''ext4'', flags = 0,
       fs_options = ''rw'', checkpoint_blk = True, checkpoint_fs = False\<rparr>]"

definition env_mounts :: environment where
  "env_mounts = env_a\<lparr>fstab_default := fstab_ex, proc_mounts := Some fstab_ex\<rparr>"

text \<open>
  Devices are given by their size and their nonzero bytes; those of the examples have 32
  sectors. The entries of the examples have a checksum
  field of 0, which the code does not verify.
\<close>

definition device_of :: "nat \<Rightarrow> (nat \<times> 8 word) list \<Rightarrow> device" where
  "device_of n bs = map (\<lambda>a. case map_of bs a of None \<Rightarrow> 0 | Some b \<Rightarrow> b) [0..<n]"

definition world_device :: "device \<Rightarrow> world" where
  "world_device dev = world_idle\<lparr>block_devices := [''/dev/block/dm-1'' \<mapsto> dev]\<rparr>"

definition entry_new :: log_entry where
  "entry_new = \<lparr>source = 8, dest = 16, size_le = 4096, checksum = 0\<rparr>"

definition entry_old :: log_entry where
  "entry_old = \<lparr>source = 16, dest = 24, size_le = 4096, checksum = 0\<rparr>"

definition entry_zero :: log_entry where
  "entry_zero = \<lparr>source = 0, dest = 16, size_le = 4096, checksum = 0\<rparr>"

definition entry_short :: log_entry where
  "entry_short = \<lparr>source = 8, dest = 16, size_le = 100, checksum = 0\<rparr>"

definition entry_pair :: log_entry where
  "entry_pair = \<lparr>source = 8, dest = 16, size_le = 8192, checksum = 0\<rparr>"

text \<open>No log at all.\<close>

definition dev_blank :: device where
  "dev_blank = device_of 16384 []"

text \<open>
  The header claims the sequence number 1 and names sector 8 as \<open>sector0\<close>; its one
  entry is \<open>entry_new\<close>. No entry moves sector 0, so the second log sector is never
  found.
\<close>

definition dev_mismatch :: device where
  "dev_mismatch =
     device_of 16384
       [(0, 0x42), (1, 0x4F), (2, 0x57), (4, 1), (8, 1), (12, 8),
        (20, 8), (28, 16), (37, 0x10),
        (4096, 0xAA), (8192, 0xBB)]"

text \<open>The same log with 64 as \<open>sector0\<close>, a sector behind the end of the device.\<close>

definition dev_far :: device where
  "dev_far =
     device_of 16384
       [(0, 0x42), (1, 0x4F), (2, 0x57), (4, 1), (8, 1), (12, 64),
        (20, 8), (28, 16), (37, 0x10),
        (4096, 0xAA), (8192, 0xBB)]"

text \<open>One entry, \<open>entry_short\<close>, of 100 bytes.\<close>

definition dev_short :: device where
  "dev_short =
     device_of 16384
       [(0, 0x42), (1, 0x4F), (2, 0x57), (4, 1),
        (20, 8), (28, 16), (36, 100)]"

text \<open>Two entries: \<open>entry_old\<close> at index 0 and \<open>entry_new\<close> at index 1.\<close>

definition dev_two :: device where
  "dev_two =
     device_of 16384
       [(0, 0x42), (1, 0x4F), (2, 0x57), (4, 2),
        (20, 16), (28, 24), (37, 0x10),
        (44, 8), (52, 16), (61, 0x10),
        (8192, 0xBB), (12288, 0xCC)]"

text \<open>One entry, \<open>entry_zero\<close>, which moves the block at sector 16 back to sector 0.\<close>

definition dev_one :: device where
  "dev_one =
     device_of 16384
       [(0, 0x42), (1, 0x4F), (2, 0x57), (4, 1),
        (28, 16), (37, 0x10),
        (8192, 0xBB)]"

text \<open>
  One entry, \<open>entry_new\<close>, which moves the block at sector 16 back to sector 8 and leaves
  the log sector where it is.
\<close>

definition dev_keep :: device where
  "dev_keep =
     device_of 16384
       [(0, 0x42), (1, 0x4F), (2, 0x57), (4, 1),
        (20, 8), (28, 16), (37, 0x10),
        (4096, 0xAA), (8192, 0xBB)]"

section \<open>The checkpoint lifecycle: properties\<close>

lemma to_string_0: "to_string 0 = ''0''"
  by (simp add: to_string_def to_string_nat.simps)

lemma to_string_2: "to_string 2 = ''2''"
  by (simp add: to_string_def to_string_nat.simps)

text \<open>
  Claim C1 says that \<open>cp_startCheckpoint(-1)\<close>, with the boot-control HAL reporting the
  suffix \<open>sfx\<close>, writes \<open>-1 sfx\<close> to the metadata file and returns success. The content
  starts from \<open>std::to_string(retry + 1)\<close>, which is \<open>0\<close> for \<open>retry = -1\<close>: the call
  returns success and the file holds \<open>0 sfx\<close>.
\<close>

theorem start_rollback_writes_zero:
  assumes "getService env = Some module"
    and "getSuffix module (getCurrentSlot module) = Some sfx"
    and "\<not> write_fails env kMetadataCPFile"
  shows "cp_startCheckpoint env w (- 1)
         = Defined (ok, w\<lparr>files := (files w)(kMetadataCPFile \<mapsto> ''0 '' @ sfx)\<rparr>)"
  using assms
  by (simp add: cp_startCheckpoint_def to_string_0 WriteStringToFile_def)

text \<open>
  With the suffix \<open>_a\<close> the file holds \<open>0 _a\<close>. \<open>cp_needsRollback\<close> looks for the prefix
  \<open>-1 \<close> and so answers false on the file that was just written, with the slot
  unchanged.
\<close>

theorem start_rollback_writes_zero_witness:
  "cp_startCheckpoint env_a world_idle (- 1) = Defined (ok, world_armed ''0 _a'' False)
   \<and> cp_needsRollback env_a (world_armed ''0 _a'' False) = False"
proof -
  have hal: "getService env_a = Some hal_a"
    and sfx: "getSuffix hal_a (getCurrentSlot hal_a) = Some ''_a''"
    and wr: "\<not> write_fails env_a kMetadataCPFile"
    by (simp_all add: env_a_def hal_a_def)
  from start_rollback_writes_zero [OF hal sfx wr, of world_idle]
  have "cp_startCheckpoint env_a world_idle (- 1) = Defined (ok, world_armed ''0 _a'' False)"
    by (simp add: world_armed_def world_idle_def)
  moreover have "cp_needsRollback env_a (world_armed ''0 _a'' False) = False"
    by (simp add: cp_needsRollback_def ReadFileToString_def env_a_def world_armed_def)
  ultimately show ?thesis by simp
qed

text \<open>A failed remount or bow state write ends the walk with \<open>EINVAL\<close>.\<close>

lemma commit_mounts_Some:
  "commit_mounts env ms w = (Some s, w') \<Longrightarrow> exceptionCode s = EINVAL"
proof (induction ms arbitrary: w)
  case Nil
  then show ?case by simp
next
  case (Cons m ms)
  then show ?case
    by (auto simp: fromExceptionCode_def Let_def split: option.splits if_splits prod.splits)
qed

text \<open>
  Claim C7, as amended: when \<open>cp_commitChanges\<close> returns success, \<open>isCheckpointing\<close> is
  false afterwards, and the metadata file is absent if \<open>isCheckpointing\<close> was true at the
  call; called with \<open>isCheckpointing\<close> false it returns at once and leaves the metadata
  file as it was. A failed call leaves a nonzero \<open>errno\<close>.
\<close>

theorem commit_clears_state:
  assumes "isOk (fst (cp_commitChanges env w))" and "errno env \<noteq> 0"
  shows "\<not> isCheckpointing (snd (cp_commitChanges env w))
         \<and> files (snd (cp_commitChanges env w)) kMetadataCPFile
             = (if isCheckpointing w then None else files w kMetadataCPFile)"
proof (cases "isCheckpointing w")
  case False
  then show ?thesis by (simp add: cp_commitChanges_def)
next
  case True
  show ?thesis
  proof (cases "proc_mounts env")
    case None
    with True assms show ?thesis
      by (simp add: cp_commitChanges_def isOk_def fromExceptionCode_def EINVAL_def)
  next
    case (Some mounts)
    obtain r w' where cm: "commit_mounts env mounts w = (r, w')"
      by (cases "commit_mounts env mounts w")
    show ?thesis
    proof (cases r)
      case (Some s)
      with cm have "exceptionCode s = EINVAL" by (simp add: commit_mounts_Some)
      with True \<open>proc_mounts env = Some mounts\<close> cm Some assms show ?thesis
        by (simp add: cp_commitChanges_def isOk_def EINVAL_def)
    next
      case None
      with True \<open>proc_mounts env = Some mounts\<close> cm assms show ?thesis
        by (auto simp: cp_commitChanges_def isOk_def fromExceptionCode_def RemoveFileIfExists_def
            SetProperty_def Let_def split: option.splits)
    qed
  qed
qed

text \<open>
  A commit with an f2fs mount and a bow device: both transitions happen, the flag is
  cleared and the metadata file is removed.
\<close>

theorem commit_clears_state_witness:
  "isOk (fst (cp_commitChanges env_mounts (world_armed ''2'' True)))
   \<and> errno env_mounts \<noteq> 0
   \<and> isCheckpointing (world_armed ''2'' True)
   \<and> \<not> isCheckpointing (snd (cp_commitChanges env_mounts (world_armed ''2'' True)))
   \<and> files (snd (cp_commitChanges env_mounts (world_armed ''2'' True))) kMetadataCPFile = None
   \<and> files (snd (cp_commitChanges env_mounts (world_armed ''2'' True))) ''/sys/block/dm-1/bow/state''
       = Some ''2''"
proof -
  note defs = cp_commitChanges_def env_mounts_def env_a_def fstab_ex_def world_armed_def
    world_idle_def GetEntryForMountPoint_def mount_def MS_REMOUNT_def setBowState_def
    WriteStringToFile_def SetProperty_def RemoveFileIfExists_def kMetadataCPFile_def Let_def
  have h1: "isOk (fst (cp_commitChanges env_mounts (world_armed ''2'' True)))"
    by (simp add: defs ok_def isOk_def)
  have h2: "errno env_mounts \<noteq> 0"
    by (simp add: env_mounts_def env_a_def)
  have h3: "files (snd (cp_commitChanges env_mounts (world_armed ''2'' True)))
              ''/sys/block/dm-1/bow/state'' = Some ''2''"
    by (simp add: defs)
  from commit_clears_state [OF h1 h2] h1 h2 h3 show ?thesis
    by (simp add: world_armed_def world_idle_def)
qed

text \<open>
  Claim C7 as stated fails: with \<open>isCheckpointing\<close> false, \<open>cp_commitChanges\<close> returns
  success and the metadata file is still there.
\<close>

theorem commit_not_checkpointing_counterexample:
  "isOk (fst (cp_commitChanges env_a (world_armed ''1'' False)))
   \<and> files (snd (cp_commitChanges env_a (world_armed ''1'' False))) kMetadataCPFile = Some ''1''"
  by (simp add: cp_commitChanges_def world_armed_def world_idle_def isOk_def ok_def)

text \<open>
  Claim C8: \<open>cp_markBootAttempt\<close> returns success and changes nothing when the metadata
  file is absent. Otherwise the text before the first space is parsed as an integer
  \<open>n\<close>: for \<open>n > 0\<close> the file is rewritten with the decimal of \<open>n - 1\<close>, for \<open>n \<le> 0\<close> it
  is left as it is, and a text that does not parse gives \<open>EINVAL\<close>. The reads and writes
  of the metadata file are taken to succeed.
\<close>

theorem markBootAttempt_decrements:
  assumes "\<not> read_fails env kMetadataCPFile" and "\<not> write_fails env kMetadataCPFile"
  shows "(files w kMetadataCPFile = None \<longrightarrow> cp_markBootAttempt env w = (ok, w))
       \<and> (files w kMetadataCPFile = Some content
            \<and> ParseInt env (takeWhile (\<lambda>c. c \<noteq> CHR '' '') content) = Some n \<and> n > 0
          \<longrightarrow> cp_markBootAttempt env w
                = (ok, w\<lparr>files := (files w)(kMetadataCPFile \<mapsto> to_string (n - 1))\<rparr>))
       \<and> (files w kMetadataCPFile = Some content
            \<and> ParseInt env (takeWhile (\<lambda>c. c \<noteq> CHR '' '') content) = Some n \<and> n \<le> 0
          \<longrightarrow> cp_markBootAttempt env w = (ok, w))
       \<and> (files w kMetadataCPFile = Some content
            \<and> ParseInt env (takeWhile (\<lambda>c. c \<noteq> CHR '' '') content) = None
          \<longrightarrow> exceptionCode (fst (cp_markBootAttempt env w)) = EINVAL
              \<and> snd (cp_markBootAttempt env w) = w)"
  using assms
  by (simp add: cp_markBootAttempt_def ReadFileToString_def WriteStringToFile_def
      fromExceptionCode_def Let_def)

text \<open>
  The four cases run: no file; \<open>3 _a\<close> becomes \<open>2\<close>; \<open>0\<close> stays; \<open>many\<close> is refused.
\<close>

theorem markBootAttempt_decrements_witness:
  "cp_markBootAttempt env_a world_idle = (ok, world_idle)
   \<and> cp_markBootAttempt env_a (world_armed ''3 _a'' False) = (ok, world_armed ''2'' False)
   \<and> cp_markBootAttempt env_a (world_armed ''0'' True) = (ok, world_armed ''0'' True)
   \<and> exceptionCode (fst (cp_markBootAttempt env_a (world_armed ''many'' False))) = EINVAL"
proof -
  have r: "\<not> read_fails env_a kMetadataCPFile" and wr: "\<not> write_fails env_a kMetadataCPFile"
    by (simp_all add: env_a_def)
  have p3: "ParseInt env_a (takeWhile (\<lambda>c. c \<noteq> CHR '' '') ''3 _a'') = Some 3"
    and p0: "ParseInt env_a (takeWhile (\<lambda>c. c \<noteq> CHR '' '') ''0'') = Some 0"
    and px: "ParseInt env_a (takeWhile (\<lambda>c. c \<noteq> CHR '' '') ''many'') = None"
    by (simp_all add: env_a_def parse_decimal_def digit_of_def)
  from markBootAttempt_decrements [OF r wr, of world_idle]
  have a: "cp_markBootAttempt env_a world_idle = (ok, world_idle)"
    by (simp add: world_idle_def)
  from markBootAttempt_decrements [OF r wr, of "world_armed ''3 _a'' False" "''3 _a''" 3] p3
  have b: "cp_markBootAttempt env_a (world_armed ''3 _a'' False) = (ok, world_armed ''2'' False)"
    by (simp add: world_armed_def world_idle_def to_string_2)
  from markBootAttempt_decrements [OF r wr, of "world_armed ''0'' True" "''0''" 0] p0
  have c: "cp_markBootAttempt env_a (world_armed ''0'' True) = (ok, world_armed ''0'' True)"
    by (simp add: world_armed_def world_idle_def)
  from markBootAttempt_decrements [OF r wr, of "world_armed ''many'' False" "''many''"] px
  have d: "exceptionCode (fst (cp_markBootAttempt env_a (world_armed ''many'' False))) = EINVAL"
    by (simp add: world_armed_def world_idle_def)
  from a b c d show ?thesis by simp
qed

text \<open>
  Claim C10, as amended: when the metadata file holds exactly \<open>0\<close> and the boot-control
  HAL is absent or does not report the current slot as not marked successful,
  \<open>cp_needsCheckpoint\<close> returns false and assigns false to \<open>isCheckpointing\<close>, whatever
  the flag was before.
\<close>

theorem needsCheckpoint_clears_flag:
  assumes "files w kMetadataCPFile = Some ''0''" and "\<not> read_fails env kMetadataCPFile"
    and "\<forall>module. getService env = Some module
           \<longrightarrow> isSlotMarkedSuccessful module (getCurrentSlot module) \<noteq> FALSE"
  shows "cp_needsCheckpoint env w = (False, w\<lparr>isCheckpointing := False\<rparr>)"
  using assms
  by (auto simp: cp_needsCheckpoint_def ReadFileToString_def split: option.splits)

text \<open>A flag that was set is cleared.\<close>

theorem needsCheckpoint_clears_flag_witness:
  "files (world_armed ''0'' True) kMetadataCPFile = Some ''0''
   \<and> isCheckpointing (world_armed ''0'' True)
   \<and> cp_needsCheckpoint env_a (world_armed ''0'' True) = (False, world_armed ''0'' False)"
proof -
  have h1: "files (world_armed ''0'' True) kMetadataCPFile = Some ''0''"
    by (simp add: world_armed_def)
  have h2: "\<not> read_fails env_a kMetadataCPFile"
    by (simp add: env_a_def)
  have h3: "\<forall>module. getService env_a = Some module
              \<longrightarrow> isSlotMarkedSuccessful module (getCurrentSlot module) \<noteq> FALSE"
    by (simp add: env_a_def hal_a_def)
  from needsCheckpoint_clears_flag [OF h1 h2 h3] h1 show ?thesis
    by (simp add: world_armed_def)
qed

text \<open>
  Claim C10 as stated fails: the HAL is asked first, and when it reports the current
  slot as not marked successful the call returns true and sets the flag, with the
  metadata file holding \<open>0\<close>.
\<close>

theorem needsCheckpoint_hal_counterexample:
  "files (world_armed ''0'' False) kMetadataCPFile = Some ''0''
   \<and> cp_needsCheckpoint (env_a\<lparr>getService := Some hal_unsuccessful\<rparr>) (world_armed ''0'' False)
       = (True, world_armed ''0'' True)"
  by (simp add: cp_needsCheckpoint_def hal_unsuccessful_def hal_a_def world_armed_def)

section \<open>Reading and writing the device\<close>

lemma length_span: "off + n \<le> length dev \<Longrightarrow> length (span dev off n) = n"
  by (simp add: span_def)

lemma nth_span: "i < n \<Longrightarrow> off + n \<le> length dev \<Longrightarrow> span dev off n ! i = dev ! (off + i)"
  by (simp add: span_def)

lemma length_overwrite:
  "off + length bs \<le> length dev \<Longrightarrow> length (overwrite dev off bs) = length dev"
  by (simp add: overwrite_def)




lemma span_span:
  "a + m \<le> n \<Longrightarrow> span (span dev off n) a m = span dev (off + a) m"
  by (simp add: span_def drop_take min_def add.commute)

lemma device_read_inside:
  assumes "\<not> failed s" and "unat off + length buffer \<le> length (bytes s)"
    and "unat off < 2 ^ 63"
  shows "device_read s off buffer = (span (bytes s) (unat off) (length buffer), s)"
  using assms by (simp add: device_read_def seekable_def length_span)

lemma device_read_outside:
  assumes "\<not> failed s"
    and "\<not> (unat off < 2 ^ 63 \<and> unat off + length buffer \<le> length (bytes s))"
  shows "snd (device_read s off buffer) = s\<lparr>failed := True\<rparr>"
  using assms by (auto simp: device_read_def seekable_def span_def Let_def min_def)

lemma device_read_failed: "failed s \<Longrightarrow> device_read s off buffer = (buffer, s)"
  by (simp add: device_read_def)

lemma length_device_read: "length (fst (device_read s off buffer)) = length buffer"
  by (auto simp: device_read_def Let_def span_def)

lemma bytes_device_read: "bytes (snd (device_read s off buffer)) = bytes s"
  by (simp add: device_read_def Let_def)

lemma failed_device_read: "failed s \<Longrightarrow> failed (snd (device_read s off buffer))"
  by (simp add: device_read_def)

lemma device_write_inside:
  assumes "\<not> failed s" and "unat off + length buffer \<le> length (bytes s)"
    and "unat off < 2 ^ 63"
  shows "device_write s off buffer = s\<lparr>bytes := overwrite (bytes s) (unat off) buffer\<rparr>"
  using assms by (simp add: device_write_def seekable_def)

lemma device_write_failed: "failed s \<Longrightarrow> device_write s off buffer = s"
  by (simp add: device_write_def)

lemma unat_block_size: "unat (of_nat kBlockSize :: 32 word) = kBlockSize"
  by (simp add: kBlockSize_def)

lemma read_direct:
  "read s logs False sector sz = Defined (device_read s (sector * 512) (replicate (unat sz) 0))"
  by (simp add: read_def)

lemma length_read_sector: "length (fst (read_sector s logs sector block)) = length block"
  by (simp add: read_sector_def length_device_read)

lemma bytes_read_sector: "bytes (snd (read_sector s logs sector block)) = bytes s"
  by (simp add: read_sector_def bytes_device_read)

text \<open>
  A validating read of a whole number of blocks stays inside its buffer and returns as
  many bytes as were asked for, whatever the state of the stream.
\<close>

lemma read_blocks_from:
  assumes "length buffer = k * kBlockSize" and "j \<le> k"
  shows "\<exists>buffer' s'. read_blocks s logs (k * kBlockSize) (j * kBlockSize) sector buffer
           = Defined (buffer', s') \<and> length buffer' = k * kBlockSize \<and> bytes s' = bytes s"
  using assms
proof (induction "k - j" arbitrary: j sector buffer s)
  case 0
  then have "j = k" by simp
  with 0 show ?case by (simp add: read_blocks.simps)
next
  case (Suc d)
  then have lt: "j < k" and d: "d = k - Suc j" and le: "Suc j \<le> k" by simp_all
  from lt have less: "j * kBlockSize < k * kBlockSize"
    by (simp add: kBlockSize_def)
  from le have room: "j * kBlockSize + kBlockSize \<le> length buffer"
    using Suc.prems(1) mult_le_mono1 [of "Suc j" k kBlockSize] by simp
  define r where "r = read_sector s logs sector (span buffer (j * kBlockSize) kBlockSize)"
  define buffer1 where "buffer1 = overwrite buffer (j * kBlockSize) (fst r)"
  have lenr: "length (fst r) = kBlockSize"
    using room by (simp add: r_def length_read_sector length_span)
  have len1: "length buffer1 = k * kBlockSize"
    using room Suc.prems(1) lenr by (simp add: buffer1_def length_overwrite)
  have step: "read_blocks s logs (k * kBlockSize) (j * kBlockSize) sector buffer
      = read_blocks (snd r) logs (k * kBlockSize) (Suc j * kBlockSize) (sector + 8) buffer1"
    using less room by (subst read_blocks.simps) (simp add: add.commute buffer1_def r_def)
  from Suc.hyps(1) [OF d len1 le, of "snd r" "sector + 8"]
  show ?case
    unfolding step by (simp add: r_def bytes_read_sector)
qed

lemma read_defined:
  assumes "unat sz = k * kBlockSize"
  shows "\<exists>buffer s'. read s logs validating sector sz = Defined (buffer, s')
           \<and> length buffer = k * kBlockSize"
proof (cases validating)
  case False
  define r where "r = device_read s (sector * 512) (replicate (unat sz) 0)"
  have "read s logs False sector sz = Defined (fst r, snd r)"
    by (simp add: read_def r_def)
  moreover have "length (fst r) = k * kBlockSize"
    using assms by (simp add: r_def length_device_read)
  ultimately show ?thesis
    using False by (intro exI [of _ "fst r"] exI [of _ "snd r"]) simp
next
  case True
  have "length (replicate (unat sz) (0 :: 8 word)) = k * kBlockSize"
    using assms by simp
  from read_blocks_from [OF this, of 0 s logs sector] True assms show ?thesis
    by (auto simp: read_def)
qed

lemma read_one_block:
  "read s logs True sector (of_nat kBlockSize)
   = Defined (read_sector s logs sector (replicate kBlockSize 0))"
proof -
  define r where "r = read_sector s logs sector (replicate kBlockSize 0)"
  have len: "length (fst r) = kBlockSize"
    by (simp add: r_def length_read_sector)
  have sl: "span (replicate kBlockSize (0 :: 8 word)) 0 kBlockSize = replicate kBlockSize 0"
    by (simp add: span_def)
  have ow: "overwrite (replicate kBlockSize 0) 0 (fst r) = fst r"
    using len by (simp add: overwrite_def)
  have "read_blocks s logs kBlockSize 0 sector (replicate kBlockSize 0)
          = read_blocks (snd r) logs kBlockSize kBlockSize (sector + 8) (fst r)"
    by (subst read_blocks.simps) (simp add: sl ow r_def [symmetric], simp add: kBlockSize_def)
  also have "\<dots> = Defined r"
    by (subst read_blocks.simps) simp
  finally show ?thesis
    by (simp add: read_def unat_block_size r_def)
qed

lemma read_sector_Nil:
  "read_sector s [] sector block = device_read s (sector * 512) block"
  by (simp add: read_sector_def remap_sector_def)

text \<open>The first read of a pass, on a device that holds a whole block.\<close>

lemma read_header:
  assumes "kBlockSize \<le> length dev"
  shows "read (fstream_open dev) [] validating 0 (of_nat kBlockSize)
         = Defined (span dev 0 kBlockSize, fstream_open dev)"
proof -
  have "device_read (fstream_open dev) 0 (replicate kBlockSize 0)
          = (span dev 0 kBlockSize, fstream_open dev)"
    using device_read_inside [of "fstream_open dev" 0 "replicate kBlockSize 0"] assms(1)
    by (simp add: fstream_open_def)
  then show ?thesis
    using read_sector_Nil [of "fstream_open dev" 0 "replicate kBlockSize 0"]
    by (cases validating) (simp_all add: read_one_block read_direct unat_block_size)
qed

section \<open>The table of \<open>crc32\<close> is the reflected CRC-32\<close>

text \<open>Each of the 256 table entries is eight shift steps of its index.\<close>

lemma table_from_nth:
  "table_from w ts \<Longrightarrow> j < length ts \<Longrightarrow> ts ! j = crc32_shift8 (w + of_nat j)"
proof (induction ts arbitrary: w j)
  case Nil
  then show ?case by simp
next
  case (Cons t ts)
  show ?case
  proof (cases j)
    case 0
    with Cons.prems show ?thesis by simp
  next
    case (Suc k)
    with Cons.prems have "ts ! k = crc32_shift8 (w + 1 + of_nat k)"
      using Cons.IH [of "w + 1" k] by simp
    with Suc show ?thesis by (simp add: add.assoc)
  qed
qed

lemma table_from_0: "table_from 0 table"
  unfolding table_def by (simp add: crc32_shift_def crc32_shift8_def crc32_poly_def)

lemma table_nth: "j < 256 \<Longrightarrow> table ! j = crc32_shift8 (of_nat j)"
  using table_from_nth [OF table_from_0, of j] by (simp add: table_def)

text \<open>
  The shift step is linear over exclusive or, so eight steps on a register split into
  its low byte and the rest: the low byte goes through the table, the rest moves down by
  eight places.
\<close>

lemma crc32_shift_xor: "crc32_shift (a XOR b) = crc32_shift a XOR crc32_shift b"
  by (simp add: crc32_shift_def bit_xor_iff ac_simps)

lemma crc32_shift8_xor: "crc32_shift8 (a XOR b) = crc32_shift8 a XOR crc32_shift8 b"
  by (simp add: crc32_shift8_def crc32_shift_xor)

lemma low_bits_clear:
  fixes h :: "32 word"
  assumes "take_bit 8 h = 0" and "k < 8"
  shows "\<not> bit h k"
proof -
  from assms(2) have "bit h k = bit (take_bit 8 h) k"
    by (simp add: bit_take_bit_iff)
  with assms(1) show ?thesis by simp
qed

lemma crc32_shift8_high:
  fixes h :: "32 word"
  assumes "take_bit 8 h = 0"
  shows "crc32_shift8 h = drop_bit 8 h"
proof -
  have "drop_bit (Suc (Suc (Suc (Suc (Suc (Suc (Suc (Suc 0)))))))) h = drop_bit 8 h"
    by (simp add: eval_nat_numeral)
  with low_bits_clear [OF assms] show ?thesis
    by (simp add: crc32_shift8_def crc32_shift_def bit_drop_bit_eq)
qed

lemma crc32_shift8_split:
  fixes x :: "32 word"
  shows "crc32_shift8 x = crc32_shift8 (take_bit 8 x) XOR drop_bit 8 x"
proof -
  define h where "h = x XOR take_bit 8 x"
  have x: "x = take_bit 8 x XOR h"
    by (simp add: h_def ac_simps flip: xor.assoc)
  have "take_bit 8 h = 0"
    by (simp add: h_def take_bit_xor)
  then have "crc32_shift8 h = drop_bit 8 h"
    by (rule crc32_shift8_high)
  also have "drop_bit 8 h = drop_bit 8 x"
    by (simp add: h_def drop_bit_take_bit)
  finally have "crc32_shift8 h = drop_bit 8 x" .
  moreover have "crc32_shift8 x = crc32_shift8 (take_bit 8 x) XOR crc32_shift8 h"
    using crc32_shift8_xor [of "take_bit 8 x" h] x by simp
  ultimately show ?thesis by simp
qed

lemma low_byte_index:
  fixes x :: "32 word"
  shows "unat (ucast x :: 8 word) < 256" and "of_nat (unat (ucast x :: 8 word)) = take_bit 8 x"
proof -
  show "unat (ucast x :: 8 word) < 256"
    using unsigned_less [of "ucast x :: 8 word", where ?'a = nat] by simp
  show "of_nat (unat (ucast x :: 8 word)) = take_bit 8 x"
    by (simp add: unsigned_ucast_eq unsigned_take_bit_eq of_nat_take_bit)
qed

lemma crc32_byte_update: "crc32_byte b c = crc32_update b c"
proof -
  define x where "x = c XOR ucast b"
  have "table ! unat (ucast x :: 8 word) = crc32_shift8 (of_nat (unat (ucast x :: 8 word)))"
    by (rule table_nth [OF low_byte_index(1)])
  then have "table ! unat (ucast x :: 8 word) = crc32_shift8 (take_bit 8 x)"
    unfolding low_byte_index(2) .
  then show ?thesis
    using crc32_shift8_split [of x]
    by (simp add: crc32_byte_def crc32_update_def Let_def x_def)
qed

lemma crc32_fold_block: "crc32 data n crc = fold_block (take n data) crc"
proof -
  have "crc32_byte = crc32_update"
    by (intro ext) (rule crc32_byte_update)
  then show ?thesis by (simp add: crc32_def fold_block_def)
qed

lemma crc32_blocks_from:
  assumes "length buffer = k * kBlockSize" and "j \<le> k"
  shows "crc32_blocks buffer (k * kBlockSize) (j * kBlockSize) crc
         = Defined (fold fold_block
                      (map (\<lambda>m. take kBlockSize (drop (m * kBlockSize) buffer)) [j..<k]) crc)"
  using assms(2)
proof (induction "k - j" arbitrary: j crc)
  case 0
  then have "j = k" by simp
  then show ?case by (simp add: crc32_blocks.simps)
next
  case (Suc d)
  then have lt: "j < k" and d: "d = k - Suc j" and le: "Suc j \<le> k" by simp_all
  from lt have less: "j * kBlockSize < k * kBlockSize"
    by (simp add: kBlockSize_def)
  from le have room: "j * kBlockSize + kBlockSize \<le> length buffer"
    using assms(1) mult_le_mono1 [of "Suc j" k kBlockSize] by simp
  have step: "crc32_blocks buffer (k * kBlockSize) (j * kBlockSize) crc
      = crc32_blocks buffer (k * kBlockSize) (Suc j * kBlockSize)
          (crc32 (drop (j * kBlockSize) buffer) kBlockSize crc)"
    using less room by (subst crc32_blocks.simps) (simp add: add.commute)
  from lt have upt: "[j..<k] = j # [Suc j..<k]"
    by (simp add: upt_rec)
  show ?case
    unfolding step Suc.hyps(1) [OF d le] upt
    by (simp add: crc32_fold_block)
qed

lemma span_blocks:
  assumes "off + 8192 \<le> length dev"
  shows "payload_blocks 2 (span dev off 8192) = [span dev off 4096, span dev (off + 4096) 4096]"
proof -
  have "[0..<2] = [0, Suc 0]"
    by (simp add: upt_rec)
  moreover have "span (span dev off 8192) 0 4096 = span dev off 4096"
    using span_span [of 0 4096 8192 dev off] by simp
  moreover have "span (span dev off 8192) 4096 4096 = span dev (off + 4096) 4096"
    using span_span [of 4096 4096 8192 dev off] by simp
  ultimately show ?thesis
    by (simp add: payload_blocks_def kBlockSize_def span_def [of "span dev off 8192"])
qed

text \<open>\<open>payload_blocks\<close> gives back the blocks that a payload is made of.\<close>

lemma payload_blocks_Cons:
  assumes "length b = kBlockSize"
  shows "payload_blocks (Suc n) (b @ rest) = b # payload_blocks n rest"
proof -
  have "[0..<Suc n] = 0 # map Suc [0..<n]"
    by (simp add: upt_conv_Cons map_Suc_upt del: upt_Suc)
  then show ?thesis
    using assms by (simp add: payload_blocks_def comp_def del: upt_Suc)
qed

lemma payload_blocks_concat:
  "\<forall>b\<in>set bs. length b = kBlockSize \<Longrightarrow> payload_blocks (length bs) (concat bs) = bs"
proof (induction bs)
  case Nil
  then show ?case by (simp add: payload_blocks_def)
next
  case (Cons b bs)
  then show ?case by (simp add: payload_blocks_Cons)
qed

text \<open>
  Claim C9: for an entry of \<open>k\<close> blocks, the payload is read whole and the checksum that
  restore computes is the fold of the blocks \<open>b_1, ..., b_k\<close> in this order, each by the
  reflected CRC-32 of the polynomial \<open>0xEDB88320\<close> (which the table of the code
  implements), with no reset between blocks and no final complement, from the initial
  register \<open>source / 8\<close> (in the 32 bits of the register).
\<close>

theorem checksum_chains_over_blocks:
  assumes "unat (size_le le) = k * kBlockSize"
  shows "\<exists>buffer s'. read s logs validating (dest le) (size_le le) = Defined (buffer, s')
           \<and> length buffer = k * kBlockSize
           \<and> payload_checksum le buffer
               = Defined (fold fold_block (payload_blocks k buffer) (ucast (source le div 8)))"
proof -
  from read_defined [OF assms] obtain buffer s'
    where rd: "read s logs validating (dest le) (size_le le) = Defined (buffer, s')"
      and len: "length buffer = k * kBlockSize"
    by blast
  from crc32_blocks_from [OF len, of 0] assms
  have "payload_checksum le buffer
          = Defined (fold fold_block (payload_blocks k buffer) (ucast (source le div 8)))"
    by (simp add: payload_checksum_def payload_blocks_def)
  with rd len show ?thesis by blast
qed

text \<open>
  An entry of two blocks, read from a device of 32 sectors: the register that leaves the
  first block enters the second.
\<close>

theorem checksum_chains_over_blocks_witness:
  "unat (size_le entry_pair) = 2 * kBlockSize
   \<and> read (fstream_open dev_two) [] False (dest entry_pair) (size_le entry_pair)
       = Defined (span dev_two 8192 8192, fstream_open dev_two)
   \<and> payload_checksum entry_pair (span dev_two 8192 8192)
       = Defined (fold_block (span dev_two 12288 4096)
                   (fold_block (span dev_two 8192 4096) 1))"
proof -
  have sz: "unat (size_le entry_pair) = 2 * kBlockSize"
    by (simp add: entry_pair_def kBlockSize_def)
  have len: "length dev_two = 16384"
    by (simp add: dev_two_def device_of_def)
  have rd: "read (fstream_open dev_two) [] False (dest entry_pair) (size_le entry_pair)
              = Defined (span dev_two 8192 8192, fstream_open dev_two)"
    using device_read_inside [of "fstream_open dev_two" 8192 "replicate 8192 0"] len
    by (simp add: read_direct entry_pair_def fstream_open_def)
  from checksum_chains_over_blocks [OF sz, of "fstream_open dev_two" "[]" False] rd
  have "payload_checksum entry_pair (span dev_two 8192 8192)
          = Defined (fold fold_block (payload_blocks 2 (span dev_two 8192 8192))
                      (ucast (source entry_pair div 8)))"
    by simp
  then show ?thesis
    using sz rd len by (simp add: span_blocks entry_pair_def)
qed

section \<open>Remapped reads\<close>

lemma remap_sector_Nil: "remap_sector [] s = s"
  by (simp add: remap_sector_def)

lemma remap_sector_snoc: "remap_sector (logs @ [l]) s = remap_sector logs (remap l s)"
  by (simp add: remap_sector_def)

lemma remap_sector_append_uncovered:
  "\<forall>e\<in>set newer. \<not> covers e s \<Longrightarrow> remap_sector (logs @ newer) s = remap_sector logs s"
proof (induction newer rule: rev_induct)
  case Nil
  then show ?case by simp
next
  case (snoc l newer)
  then have "remap l s = s" by (simp add: remap_def)
  with snoc show ?case
    using remap_sector_snoc [of "logs @ newer" l s] by simp
qed

text \<open>
  For a size that is a multiple of the sector size and a sector below \<open>2^55\<close> (its byte
  offset fits the 64 bits of the product), the test of the loop is the range test
  \<open>source \<le> s < source + size / 512\<close>.
\<close>

lemma covers_range:
  assumes "512 dvd unat (size_le l)" and "unat s < 2 ^ 55"
  shows "covers l s \<longleftrightarrow> source l \<le> s \<and> unat s < unat (source l) + unat (size_le l) div 512"
proof (cases "source l \<le> s")
  case False
  then show ?thesis by (simp add: covers_def)
next
  case True
  then have le: "unat (source l) \<le> unat s"
    by (simp add: word_le_nat_alt)
  define d where "d = unat s - unat (source l)"
  have d: "unat (s - source l) = d"
    using True by (simp add: d_def unat_sub)
  have "d < 2 ^ 55"
    using assms(2) by (simp add: d_def)
  then have small: "d * 512 < 2 ^ 64" by simp
  have "unat ((s - source l) * 512) = unat (s - source l) * unat (512 :: 64 word) mod 2 ^ LENGTH(64)"
    by (rule unat_word_ariths(2))
  then have "unat ((s - source l) * 512) = d * 512 mod 2 ^ 64"
    unfolding d by simp
  with small have prod: "unat ((s - source l) * 512) = d * 512" by simp
  have sz: "unat (ucast (size_le l) :: 64 word) = unat (size_le l)"
    by (simp add: unsigned_ucast_eq take_bit_nat_eq_self_iff)
      (use unsigned_less [of "size_le l", where ?'a = nat] in simp)
  from assms(1) obtain m where m: "unat (size_le l) = 512 * m" ..
  have "(s - source l) * 512 < ucast (size_le l) \<longleftrightarrow> d * 512 < unat (size_le l)"
    by (simp only: word_less_nat_alt prod sz)
  also have "\<dots> \<longleftrightarrow> d < unat (size_le l) div 512"
    by (simp add: m)
  also have "\<dots> \<longleftrightarrow> unat s < unat (source l) + unat (size_le l) div 512"
    using le by (auto simp: d_def)
  finally show ?thesis using True by (simp add: covers_def)
qed

text \<open>
  Claim C4, as amended: a remapped read of sector \<open>s\<close> resolves to \<open>s\<close> itself when no
  entry of the table covers \<open>s\<close>; otherwise, with \<open>E\<close> the newest entry that covers \<open>s\<close>,
  it resolves to what the entries older than \<open>E\<close> make of \<open>dest + (s - source)\<close>: the
  scan goes on through the older entries with the redirected sector. An entry covers
  \<open>s\<close> when \<open>s \<ge> source\<close> and \<open>(s - source) * 512 < size\<close> in 64-bit arithmetic, which is
  \<open>source \<le> s < source + size / 512\<close> for a size that is a multiple of 512 and a sector
  below \<open>2^55\<close>.
\<close>

theorem remapped_read_resolves:
  "((\<forall>e\<in>set logs. \<not> covers e s) \<longrightarrow> remap_sector logs s = s)
   \<and> (covers E s \<and> (\<forall>e\<in>set newer. \<not> covers e s)
        \<longrightarrow> remap_sector (older @ [E] @ newer) s = remap_sector older (dest E + (s - source E)))
   \<and> (512 dvd unat (size_le E) \<and> unat s < 2 ^ 55
        \<longrightarrow> covers E s = (source E \<le> s \<and> unat s < unat (source E) + unat (size_le E) div 512))"
proof (intro conjI impI)
  assume "\<forall>e\<in>set logs. \<not> covers e s"
  from remap_sector_append_uncovered [OF this, of "[]"] show "remap_sector logs s = s"
    by (simp add: remap_sector_Nil)
next
  assume a: "covers E s \<and> (\<forall>e\<in>set newer. \<not> covers e s)"
  then have "remap_sector ((older @ [E]) @ newer) s = remap_sector (older @ [E]) s"
    by (intro remap_sector_append_uncovered) simp
  also have "\<dots> = remap_sector older (remap E s)"
    by (rule remap_sector_snoc)
  also have "remap E s = dest E + (s - source E)"
    using a by (simp add: remap_def)
  finally show "remap_sector (older @ [E] @ newer) s = remap_sector older (dest E + (s - source E))"
    by simp
next
  assume "512 dvd unat (size_le E) \<and> unat s < 2 ^ 55"
  then show "covers E s = (source E \<le> s \<and> unat s < unat (source E) + unat (size_le E) div 512)"
    using covers_range [of E s] by simp
qed

lemma covers_new_8: "covers entry_new 8"
  by (simp add: covers_def entry_new_def)

text \<open>
  With \<open>entry_old\<close> before \<open>entry_new\<close> in the table: sector 8 is covered by the newest
  entry and goes on from sector 16 through the older one; sector 40 is covered by
  neither; \<open>entry_new\<close> covers the sectors 8 to 15.
\<close>

theorem remapped_read_resolves_witness:
  "covers entry_new 8
   \<and> remap_sector [entry_old, entry_new] 8 = remap_sector [entry_old] 16
   \<and> remap_sector [entry_old, entry_new] 40 = 40
   \<and> covers entry_new 15 \<and> \<not> covers entry_new 16"
proof -
  have none: "\<forall>e\<in>set [entry_old, entry_new]. \<not> covers e 40"
    by (simp add: covers_def entry_new_def entry_old_def)
  have newest: "covers entry_new 8 \<and> (\<forall>e\<in>set []. \<not> covers e 8)"
    by (simp add: covers_new_8)
  have range: "512 dvd unat (size_le entry_new)" "unat (15 :: 64 word) < 2 ^ 55"
    "unat (16 :: 64 word) < 2 ^ 55"
    by (simp_all add: entry_new_def)
  from remapped_read_resolves [where logs = "[entry_old, entry_new]" and s = 40] none
  have a: "remap_sector [entry_old, entry_new] 40 = 40" by blast
  from remapped_read_resolves [where E = entry_new and s = 8 and newer = "[]" and older = "[entry_old]"] newest
  have b: "remap_sector [entry_old, entry_new] 8 = remap_sector [entry_old] 16"
    by (simp add: entry_new_def)
  from remapped_read_resolves [where E = entry_new and s = 15] range
  have c: "covers entry_new 15" by (simp add: entry_new_def)
  from remapped_read_resolves [where E = entry_new and s = 16] range
  have d: "\<not> covers entry_new 16" by (simp add: entry_new_def)
  from a b c d covers_new_8 show ?thesis by simp
qed

text \<open>
  Claim C4 as stated fails: the loop has no \<open>break\<close>. The newest entry that covers
  sector 8 is \<open>entry_new\<close>, which sends it to sector 16; the older \<open>entry_old\<close> covers
  sector 16 and sends the read on to sector 24. The test of the loop also leaves the
  range \<open>source \<le> s < source + size / 512\<close> in two corners: an entry of 100 bytes, whose
  range is empty, redirects its own source sector; and \<open>entry_new\<close>, whose range ends at
  sector 16, redirects sector \<open>2^55 + 8\<close>, for which \<open>(s - source) * 512\<close> wraps to 0.
\<close>

theorem remap_chains_counterexample:
  "covers entry_new 8
   \<and> dest entry_new + (8 - source entry_new) = 16
   \<and> remap_sector [entry_old, entry_new] 8 = 24
   \<and> unat (size_le entry_short) div 512 = 0
   \<and> remap_sector [entry_short] 8 = 16
   \<and> unat (2 ^ 55 + 8 :: 64 word) \<ge> unat (source entry_new) + unat (size_le entry_new) div 512
   \<and> remap_sector [entry_new] (2 ^ 55 + 8) = 2 ^ 55 + 16"
  by (simp add: covers_def remap_sector_def remap_def entry_new_def entry_old_def entry_short_def)

section \<open>Restore\<close>

lemma isOk_ok: "isOk ok"
  by (simp add: isOk_def ok_def)

lemma not_isOk_EINVAL: "\<not> isOk (fromExceptionCode EINVAL msg)"
  by (simp add: isOk_def fromExceptionCode_def EINVAL_def)

lemma to_string_nat_1: "to_string_nat (Suc 0) = ''1''"
  by (simp add: to_string_nat.simps)

text \<open>The checksum loop is defined on a payload of whole blocks.\<close>

lemma payload_checksum_defined:
  assumes "unat (size_le le) = k * kBlockSize" and "length buffer = k * kBlockSize"
  shows "\<exists>c. payload_checksum le buffer = Defined c"
  using crc32_blocks_from [OF assms(2), of 0] assms(1)
  by (simp add: payload_checksum_def)

text \<open>
  Reading does not change the bytes of the device, and leaves a failed stream failed.
\<close>

lemma failed_read_sector: "failed s \<Longrightarrow> failed (snd (read_sector s logs sector block))"
  by (simp add: read_sector_def failed_device_read)

lemma read_blocks_keeps:
  "read_blocks s logs sz i sector buffer = Defined (buffer', s')
     \<Longrightarrow> bytes s' = bytes s \<and> (failed s \<longrightarrow> failed s')"
proof (induction s logs sz i sector buffer rule: read_blocks.induct)
  case (1 s logs sz i sector buffer)
  show ?case
  proof (cases "i < sz")
    case False
    with "1.prems" show ?thesis
      by (simp add: read_blocks.simps [of s logs sz i sector buffer])
  next
    case True
    show ?thesis
    proof (cases "i + kBlockSize \<le> length buffer")
      case False
      with True "1.prems" show ?thesis
        by (simp add: read_blocks.simps [of s logs sz i sector buffer])
    next
      case room: True
      from "1.prems" True room
      have "read_blocks (snd (read_sector s logs sector (span buffer i kBlockSize)))
              logs sz (i + kBlockSize) (sector + 8)
              (overwrite buffer i (fst (read_sector s logs sector (span buffer i kBlockSize))))
            = Defined (buffer', s')"
        by (simp add: read_blocks.simps [of s logs sz i sector buffer])
      from "1.IH" [OF True room this] show ?thesis
        by (simp add: bytes_read_sector failed_read_sector)
    qed
  qed
qed

lemma read_keeps:
  assumes "read s logs validating sector sz = Defined (buffer, s')"
  shows "bytes s' = bytes s" and "failed s \<Longrightarrow> failed s'"
proof -
  have "bytes s' = bytes s \<and> (failed s \<longrightarrow> failed s')"
  proof (cases validating)
    case True
    with assms show ?thesis
      by (simp add: read_def read_blocks_keeps)
  next
    case False
    with assms have "device_read s (sector * 512) (replicate (unat sz) 0) = (buffer, s')"
      by (simp add: read_def)
    then have "s' = snd (device_read s (sector * 512) (replicate (unat sz) 0))"
      by simp
    then show ?thesis
      by (simp add: bytes_device_read failed_device_read)
  qed
  then show "bytes s' = bytes s" and "failed s \<Longrightarrow> failed s'"
    by simp_all
qed

text \<open>Validation does not write.\<close>

lemma restore_entry_validating_bytes:
  "restore_entry True le st = Defined st' \<Longrightarrow> bytes (st_device st') = bytes (st_device st)"
  by (auto simp: restore_entry_def split: outcome.splits if_splits prod.splits dest: read_keeps(1))

lemma entries_loop_validating_bytes:
  "entries_loop True buffer i st = Defined st' \<Longrightarrow> bytes (st_device st') = bytes (st_device st)"
proof (induction i arbitrary: st)
  case 0
  then show ?case
    by (auto split: outcome.splits dest: restore_entry_validating_bytes)
next
  case (Suc i)
  then show ?case
    by (auto split: outcome.splits if_splits dest: restore_entry_validating_bytes)
qed

lemma sequence_loop_validating_bytes:
  "validating \<Longrightarrow> sequence_loop validating seq st = Defined st'
     \<Longrightarrow> bytes (st_device st') = bytes (st_device st)"
proof (induction validating seq st rule: sequence_loop.induct)
  case (1 validating seq st)
  show ?case
  proof (cases "seq \<ge> 0 \<and> isOk (st_status st)")
    case False
    with "1.prems" show ?thesis by (simp add: sequence_loop.simps)
  next
    case True
    obtain buffer s where rd: "read (st_device st) (st_logs st) validating 0 (of_nat kBlockSize)
                               = Defined (buffer, s)"
      using "1.prems"(2) True unfolding sequence_loop.simps [of validating seq st]
      by (auto split: outcome.splits)
    from read_keeps(1) [OF rd] have bs: "bytes s = bytes (st_device st)" .
    define ls where "ls = log_sector_of buffer"
    show ?thesis
    proof (cases "magic ls \<noteq> kMagic \<or> sint (sequence ls) \<noteq> seq")
      case bad: True
      with "1.prems"(2) True rd bs show ?thesis
        unfolding sequence_loop.simps [of validating seq st]
        by (auto simp: Let_def ls_def split: if_splits)
    next
      case good: False
      then have m: "\<not> magic ls \<noteq> kMagic" and q: "\<not> sint (sequence ls) \<noteq> seq" by simp_all
      obtain st1 where el: "entries_loop validating buffer (unat (count ls - 1))
                              (st\<lparr>st_device := s\<rparr>) = Defined st1"
        and rest: "sequence_loop validating (seq - 1) st1 = Defined st'"
        using "1.prems"(2) True rd good
        unfolding sequence_loop.simps [of validating seq st]
        by (auto simp: Let_def ls_def split: outcome.splits)
      have "(buffer, s) = (buffer, s)" ..
      from "1.IH" [OF True rd this ls_def m q el "1.prems"(1) rest]
      have "bytes (st_device st') = bytes (st_device st1)" .
      moreover from el "1.prems"(1) have "bytes (st_device st1) = bytes s"
        by (auto dest: entries_loop_validating_bytes)
      ultimately show ?thesis using bs by simp
    qed
  qed
qed


lemma sequence_loop_step:
  assumes "seq \<ge> 0" and "isOk (st_status st)"
    and "read (st_device st) (st_logs st) validating 0 (of_nat kBlockSize) = Defined (buffer, s)"
    and "magic (log_sector_of buffer) = kMagic"
    and "sint (sequence (log_sector_of buffer)) = seq"
    and "entries_loop validating buffer (unat (count (log_sector_of buffer) - 1))
           (st\<lparr>st_device := s\<rparr>) = Defined st1"
  shows "sequence_loop validating seq st = sequence_loop validating (seq - 1) st1"
  using assms by (subst sequence_loop.simps) (simp add: Let_def)

lemma sequence_loop_undefined:
  assumes "seq \<ge> 0" and "isOk (st_status st)"
    and "read (st_device st) (st_logs st) validating 0 (of_nat kBlockSize) = Defined (buffer, s)"
    and "magic (log_sector_of buffer) = kMagic"
    and "sint (sequence (log_sector_of buffer)) = seq"
    and "entries_loop validating buffer (unat (count (log_sector_of buffer) - 1))
           (st\<lparr>st_device := s\<rparr>) = Undefined"
  shows "sequence_loop validating seq st = Undefined"
  using assms by (subst sequence_loop.simps) (simp add: Let_def)

lemma sequence_loop_wrong_sequence:
  assumes "seq \<ge> 0" and "isOk (st_status st)"
    and "read (st_device st) (st_logs st) validating 0 (of_nat kBlockSize) = Defined (buffer, s)"
    and "magic (log_sector_of buffer) = kMagic"
    and "sint (sequence (log_sector_of buffer)) \<noteq> seq"
  shows "sequence_loop validating seq st
         = Defined (st\<lparr>st_status := fromExceptionCode EINVAL
                      (''Expecting log sector '' @ to_string seq @ '' but got ''
                         @ to_string_nat (unat (sequence (log_sector_of buffer)))),
                       st_device := s\<rparr>)"
  using assms by (subst sequence_loop.simps) (simp add: Let_def)

lemma sequence_loop_no_magic:
  assumes "seq \<ge> 0" and "isOk (st_status st)"
    and "read (st_device st) (st_logs st) validating 0 (of_nat kBlockSize) = Defined (buffer, s)"
    and "magic (log_sector_of buffer) \<noteq> kMagic"
  shows "sequence_loop validating seq st
         = Defined (st\<lparr>st_status := fromExceptionCode EINVAL ''No magic'', st_device := s\<rparr>)"
  using assms by (subst sequence_loop.simps) (simp add: Let_def)

subsection \<open>Plain entries\<close>

text \<open>Offsets of a plain entry do not wrap.\<close>

lemma plain_offsets:
  assumes "plain dev e" and "length dev < 2 ^ 63"
  shows "unat (source e * 512) = src_off e" and "unat (dest e * 512) = dst_off e"
    and "length (payload dev e) = unat (size_le e)"
proof -
  from assms have s: "unat (source e) * 512 < 2 ^ 64" and d: "unat (dest e) * 512 < 2 ^ 64"
    by (simp_all add: plain_def src_off_def dst_off_def kSectorSize_def)
  have "unat (source e * 512) = unat (source e) * unat (512 :: 64 word) mod 2 ^ LENGTH(64)"
    by (rule unat_word_ariths(2))
  with s show "unat (source e * 512) = src_off e"
    by (simp add: src_off_def kSectorSize_def)
  have "unat (dest e * 512) = unat (dest e) * unat (512 :: 64 word) mod 2 ^ LENGTH(64)"
    by (rule unat_word_ariths(2))
  with d show "unat (dest e * 512) = dst_off e"
    by (simp add: dst_off_def kSectorSize_def)
  from assms(1) show "length (payload dev e) = unat (size_le e)"
    by (simp add: payload_def plain_def length_span)
qed

lemma unat_times_512:
  "unat x * 512 < 2 ^ 64 \<Longrightarrow> unat (x * 512 :: 64 word) = unat x * 512"
proof -
  assume small: "unat x * 512 < 2 ^ 64"
  have "unat (x * 512) = unat x * unat (512 :: 64 word) mod 2 ^ LENGTH(64)"
    by (rule unat_word_ariths(2))
  with small show ?thesis by simp
qed

lemma unat_plus_8:
  "unat x + 8 < 2 ^ 64 \<Longrightarrow> unat (x + 8 :: 64 word) = unat x + 8"
proof -
  assume small: "unat x + 8 < 2 ^ 64"
  have "unat (x + 8) = (unat x + unat (8 :: 64 word)) mod 2 ^ LENGTH(64)"
    by (rule unat_word_ariths(1))
  with small show ?thesis by simp
qed

text \<open>Spans next to each other, and a span of a device that was written.\<close>

lemma span_append: "span dev off a @ span dev (off + a) b = span dev off (a + b)"
  by (simp add: span_def take_add add.commute)


lemma overwrite_empty: "off \<le> length dev \<Longrightarrow> overwrite dev off [] = dev"
  by (simp add: overwrite_def)

lemma overwrite_next:
  assumes "length buffer = n" and "a + length blk \<le> n"
  shows "take (a + length blk) (overwrite buffer a blk) = take a buffer @ blk"
  using assms by (simp add: overwrite_def)


lemma span_0: "span dev off 0 = []"
  by (simp add: span_def)

lemma remap_sector_uncovered:
  "\<forall>e\<in>set logs. \<not> covers e x \<Longrightarrow> remap_sector logs x = x"
  using remap_sector_append_uncovered [of logs x "[]"] by (simp add: remap_sector_Nil)

text \<open>
  A validating read on a sound stream, of whole blocks inside the device whose sectors
  the table does not redirect, returns the bytes of the device.
\<close>

lemma read_blocks_plain:
  assumes "\<not> failed s" and "length (bytes s) < 2 ^ 63"
    and "length buffer = k * kBlockSize" and "j \<le> k"
    and "unat sector * 512 + (k - j) * kBlockSize \<le> length (bytes s)"
    and "\<forall>x. unat sector \<le> unat x \<and> unat x < unat sector + 8 * (k - j)
           \<longrightarrow> remap_sector logs x = x"
  shows "read_blocks s logs (k * kBlockSize) (j * kBlockSize) sector buffer
         = Defined (take (j * kBlockSize) buffer
                      @ span (bytes s) (unat sector * 512) ((k - j) * kBlockSize), s)"
  using assms(3-6)
proof (induction "k - j" arbitrary: j sector buffer)
  case 0
  then have "j = k" by simp
  with 0 show ?case by (simp add: read_blocks.simps span_0)
next
  case (Suc d)
  then have lt: "j < k" and d: "d = k - Suc j" and le: "Suc j \<le> k" by simp_all
  from lt have less: "j * kBlockSize < k * kBlockSize"
    by (simp add: kBlockSize_def)
  from le have room: "j * kBlockSize + kBlockSize \<le> length buffer"
    using Suc.prems(1) mult_le_mono1 [of "Suc j" k kBlockSize] by simp
  from lt obtain m where m: "k - j = Suc m"
    by (cases "k - j") simp_all
  with d have dm: "k - Suc j = m" by simp
  from Suc.prems(3) m have inside: "unat sector * 512 + kBlockSize + m * kBlockSize \<le> length (bytes s)"
    by simp
  with assms(2) have small: "unat sector * 512 < 2 ^ 64" and small8: "unat sector + 8 < 2 ^ 64"
    by (simp_all add: kBlockSize_def)
  have same: "remap_sector logs sector = sector"
    using Suc.prems(4) m by simp
  define blk where "blk = span (bytes s) (unat sector * 512) kBlockSize"
  have lblk: "length blk = kBlockSize"
    using inside by (simp add: blk_def length_span)
  have "device_read s (sector * 512) (span buffer (j * kBlockSize) kBlockSize) = (blk, s)"
    using assms(1,2) inside room
      device_read_inside [of s "sector * 512" "span buffer (j * kBlockSize) kBlockSize"]
    by (simp add: unat_times_512 [OF small] length_span blk_def)
  then have rs: "read_sector s logs sector (span buffer (j * kBlockSize) kBlockSize) = (blk, s)"
    by (simp add: read_sector_def same)
  define buffer1 where "buffer1 = overwrite buffer (j * kBlockSize) blk"
  have len1: "length buffer1 = k * kBlockSize"
    using room Suc.prems(1) lblk by (simp add: buffer1_def length_overwrite)
  have pre: "take (Suc j * kBlockSize) buffer1 = take (j * kBlockSize) buffer @ blk"
    using overwrite_next [of buffer "length buffer" "j * kBlockSize" blk] room lblk
    by (simp add: buffer1_def add.commute)
  have step: "read_blocks s logs (k * kBlockSize) (j * kBlockSize) sector buffer
      = read_blocks s logs (k * kBlockSize) (Suc j * kBlockSize) (sector + 8) buffer1"
    using less room by (subst read_blocks.simps) (simp add: add.commute buffer1_def rs)
  have next8: "unat (sector + 8) = unat sector + 8"
    by (rule unat_plus_8 [OF small8])
  have in1: "unat (sector + 8) * 512 + (k - Suc j) * kBlockSize \<le> length (bytes s)"
    using inside by (simp add: next8 dm kBlockSize_def)
  have unc1: "\<forall>x. unat (sector + 8) \<le> unat x \<and> unat x < unat (sector + 8) + 8 * (k - Suc j)
           \<longrightarrow> remap_sector logs x = x"
    using Suc.prems(4) by (simp add: next8 dm m)
  have "span (bytes s) (unat sector * 512) kBlockSize
          @ span (bytes s) (unat sector * 512 + kBlockSize) (m * kBlockSize)
        = span (bytes s) (unat sector * 512) (kBlockSize + m * kBlockSize)"
    by (rule span_append)
  then have glue: "blk @ span (bytes s) (unat (sector + 8) * 512) ((k - Suc j) * kBlockSize)
      = span (bytes s) (unat sector * 512) ((k - j) * kBlockSize)"
    by (simp add: blk_def next8 dm m kBlockSize_def)
  show ?case
    unfolding step Suc.hyps(1) [OF d len1 le in1 unc1] pre
    using glue by simp
qed

lemma read_plain:
  assumes "\<not> failed s" and "length (bytes s) < 2 ^ 63"
    and "unat sz = k * kBlockSize"
    and "unat sector * 512 + unat sz \<le> length (bytes s)"
    and "\<forall>x. unat sector \<le> unat x \<and> unat x < unat sector + 8 * k \<longrightarrow> remap_sector logs x = x"
  shows "read s logs validating sector sz
         = Defined (span (bytes s) (unat sector * 512) (unat sz), s)"
proof (cases validating)
  case True
  from read_blocks_plain [of s "replicate (unat sz) 0" k 0 sector logs] assms
  show ?thesis using True by (simp add: read_def)
next
  case False
  from assms(2,4) have "unat sector * 512 < 2 ^ 64" by simp
  then have "unat (sector * 512) = unat sector * 512"
    by (rule unat_times_512)
  with assms show ?thesis
    using False device_read_inside [of s "sector * 512" "replicate (unat sz) 0"]
    by (simp add: read_def)
qed

text \<open>
  An entry that writes apart from the payload of another does not redirect a sector of
  that payload.
\<close>

lemma apart_not_covers:
  assumes "plain dev e'" and "plain dev e" and "apart e' e" and "length dev < 2 ^ 63"
    and "unat (dest e) \<le> unat x" and "unat x * 512 < dst_off e + unat (size_le e)"
  shows "\<not> covers e' x"
proof -
  from assms(1) have "kBlockSize dvd unat (size_le e')"
    by (simp add: plain_def)
  then obtain m where m: "unat (size_le e') = 4096 * m"
    by (auto simp: kBlockSize_def)
  then have d512: "512 dvd unat (size_le e')" by simp
  from assms(2,4,6) have "unat x * 512 < 2 ^ 63"
    by (simp add: plain_def)
  then have small: "unat x < 2 ^ 55" by simp
  have div: "unat (size_le e') div 512 = 8 * m"
    by (simp add: m)
  from assms(3) show ?thesis
    unfolding apart_def
  proof
    assume "src_off e' + unat (size_le e') \<le> dst_off e"
    then have "unat (source e') + 8 * m \<le> unat (dest e)"
      by (simp add: src_off_def dst_off_def kSectorSize_def m)
    with assms(5) show ?thesis
      by (simp add: covers_range [OF d512 small] div)
  next
    assume "dst_off e + unat (size_le e) \<le> src_off e'"
    with assms(6) have "unat x < unat (source e')"
      by (simp add: src_off_def kSectorSize_def)
    then show ?thesis
      by (simp add: covers_range [OF d512 small] word_le_nat_alt)
  qed
qed


lemma read_payload:
  assumes "plain dev e" and "length dev < 2 ^ 63"
    and "\<forall>e'\<in>set logs. plain dev e' \<and> apart e' e"
  shows "read (fstream_open dev) logs validating (dest e) (size_le e)
         = Defined (payload dev e, fstream_open dev)"
proof -
  from assms(1) have "kBlockSize dvd unat (size_le e)"
    by (simp add: plain_def)
  then obtain k where k: "unat (size_le e) = k * kBlockSize"
    by (auto simp: dvd_def mult.commute)
  have inside: "unat (dest e) * 512 + unat (size_le e) \<le> length dev"
    using assms(1) by (simp add: plain_def dst_off_def kSectorSize_def)
  have "\<forall>x. unat (dest e) \<le> unat x \<and> unat x < unat (dest e) + 8 * k \<longrightarrow> remap_sector logs x = x"
  proof (intro allI impI)
    fix x :: "64 word"
    assume x: "unat (dest e) \<le> unat x \<and> unat x < unat (dest e) + 8 * k"
    then have x1: "unat (dest e) \<le> unat x"
      and x2: "unat x * 512 < dst_off e + unat (size_le e)"
      by (simp_all add: dst_off_def kSectorSize_def k kBlockSize_def)
    have "\<forall>e'\<in>set logs. \<not> covers e' x"
    proof
      fix e'
      assume "e' \<in> set logs"
      with assms(3) have "plain dev e'" and "apart e' e"
        by simp_all
      from this(1) assms(1) this(2) assms(2) x1 x2 show "\<not> covers e' x"
        by (rule apart_not_covers)
    qed
    then show "remap_sector logs x = x"
      by (rule remap_sector_uncovered)
  qed
  with read_plain [of "fstream_open dev" "size_le e" k "dest e" logs validating] assms(2) k inside
  show ?thesis
    by (simp add: fstream_open_def payload_def dst_off_def kSectorSize_def)
qed








subsection \<open>The devices of the examples\<close>

lemma length_device_of: "length (device_of n bs) = n"
  by (simp add: device_of_def)

lemma nth_device_of:
  "a < n \<Longrightarrow> device_of n bs ! a = (case map_of bs a of None \<Rightarrow> 0 | Some b \<Rightarrow> b)"
  by (simp add: device_of_def)

lemma length_devices:
  "length dev_blank = 16384" "length dev_mismatch = 16384" "length dev_far = 16384"
  "length dev_short = 16384" "length dev_two = 16384" "length dev_one = 16384"
  "length dev_keep = 16384"
  by (simp_all add: dev_blank_def dev_mismatch_def dev_far_def dev_short_def dev_two_def
      dev_one_def dev_keep_def length_device_of)

lemma read_header_4096:
  "4096 \<le> length dev
     \<Longrightarrow> read (fstream_open dev) [] validating 0 4096 = Defined (span dev 0 4096, fstream_open dev)"
  using read_header [of dev validating] by (simp add: kBlockSize_def)

lemma world_device_update:
  "(world_device dev)\<lparr>block_devices := (block_devices (world_device dev))(''/dev/block/dm-1'' \<mapsto> dev')\<rparr>
   = world_device dev'"
  by (simp add: world_device_def)

lemma world_device_lookup: "block_devices (world_device dev) ''/dev/block/dm-1'' = Some dev"
  by (simp add: world_device_def)

text \<open>
  An entry of whole blocks inside the device whose checksum field is 0 is accepted. The
  validating pass reads its payload where it lies if no entry of the table writes
  there; the other pass copies it to its source.
\<close>

lemma restore_entry_unchecked:
  assumes "st_device st = fstream_open dev" and "plain dev le" and "length dev < 2 ^ 63"
    and "checksum le = 0"
  shows "\<forall>e'\<in>set (st_logs st). plain dev e' \<and> apart e' le
           \<Longrightarrow> restore_entry True le st = Defined (st\<lparr>st_logs := st_logs st @ [le]\<rparr>)"
    and "restore_entry False le st
         = Defined (st\<lparr>st_logs := st_logs st @ [le],
                       st_device := fstream_open (overwrite dev (src_off le) (payload dev le))\<rparr>)"
proof -
  from assms(2) have "kBlockSize dvd unat (size_le le)"
    by (simp add: plain_def)
  then obtain k where k: "unat (size_le le) = k * kBlockSize"
    by (auto simp: dvd_def mult.commute)
  have lp: "length (payload dev le) = unat (size_le le)"
    using assms(2,3) by (rule plain_offsets(3))
  from payload_checksum_defined [OF k, of "payload dev le"] lp k obtain c
    where crc: "payload_checksum le (payload dev le) = Defined c"
    by auto
  {
    assume "\<forall>e'\<in>set (st_logs st). plain dev e' \<and> apart e' le"
    with assms(2,3) have "read (fstream_open dev) (st_logs st) True (dest le) (size_le le)
                            = Defined (payload dev le, fstream_open dev)"
      by (rule read_payload)
    with crc assms(1,4) show "restore_entry True le st = Defined (st\<lparr>st_logs := st_logs st @ [le]\<rparr>)"
      by (simp add: restore_entry_def)
  }
  have "read (fstream_open dev) [] False (dest le) (size_le le)
          = Defined (payload dev le, fstream_open dev)"
    using assms(2,3) by (intro read_payload) simp_all
  then have rd: "read (st_device st) (st_logs st) False (dest le) (size_le le)
                   = Defined (payload dev le, fstream_open dev)"
    by (simp add: read_def assms(1))
  have off: "unat (source le * 512) = src_off le"
    using assms(2,3) by (rule plain_offsets(1))
  have "device_write (fstream_open dev) (source le * 512) (payload dev le)
          = (fstream_open dev)\<lparr>bytes := overwrite (bytes (fstream_open dev))
                                            (unat (source le * 512)) (payload dev le)\<rparr>"
  proof (rule device_write_inside)
    show "\<not> failed (fstream_open dev)"
      by (simp add: fstream_open_def)
    show "unat (source le * 512) + length (payload dev le) \<le> length (bytes (fstream_open dev))"
      using assms(2) by (simp add: off lp fstream_open_def plain_def)
    show "unat (source le * 512) < 2 ^ 63"
      using assms(2,3) by (simp add: off plain_def)
  qed
  then have "device_write (fstream_open dev) (source le * 512) (payload dev le)
               = fstream_open (overwrite dev (src_off le) (payload dev le))"
    by (simp add: off fstream_open_def)
  with rd crc assms(4) show "restore_entry False le st
         = Defined (st\<lparr>st_logs := st_logs st @ [le],
                       st_device := fstream_open (overwrite dev (src_off le) (payload dev le))\<rparr>)"
    by (simp add: restore_entry_def)
qed

lemma plain_entries:
  "length dev = 16384 \<Longrightarrow> plain dev entry_new"
  "length dev = 16384 \<Longrightarrow> plain dev entry_old"
  "length dev = 16384 \<Longrightarrow> plain dev entry_zero"
  by (simp_all add: plain_def src_off_def dst_off_def kBlockSize_def kSectorSize_def
      entry_new_def entry_old_def entry_zero_def)



lemma checksum_entries:
  "checksum entry_new = 0" "checksum entry_old = 0" "checksum entry_zero = 0"
  by (simp_all add: entry_new_def entry_old_def entry_zero_def)

subsection \<open>The device with a wrong sequence number\<close>

lemma header_mismatch:
  "log_sector_of (span dev_mismatch 0 4096)
     = \<lparr>magic = kMagic, count = 1, sequence = 1, sector0 = 8\<rparr>"
  "log_sector_of (span dev_far 0 4096)
     = \<lparr>magic = kMagic, count = 1, sequence = 1, sector0 = 64\<rparr>"
  by (simp_all add: log_sector_of_def le32_def le64_def nth_span length_device_of
      dev_mismatch_def dev_far_def nth_device_of kMagic_def)

lemma entry_mismatch:
  "entry_at (span dev_mismatch 0 4096) 0 = Defined entry_new"
  "entry_at (span dev_far 0 4096) 0 = Defined entry_new"
  by (simp_all add: entry_at_def le32_def le64_def nth_span length_span length_device_of
      dev_mismatch_def dev_far_def nth_device_of entry_new_def)

subsection \<open>The roll-forward\<close>

lemma roll_forward_bytes:
  "\<exists>s'. roll_forward s logs ls = Defined s'
     \<and> bytes s' =
         (if \<not> failed s \<and> unat (sector0 ls * 512) < 2 ^ 63
               \<and> unat (sector0 ls * 512) + kBlockSize \<le> length (bytes s)
          then overwrite (bytes s) 0 (span (bytes s) (unat (sector0 ls * 512)) kBlockSize)
          else bytes s)"
proof -
  let ?off = "sector0 ls * 512"
  define r where "r = device_read s ?off (replicate kBlockSize 0)"
  have rf: "roll_forward s logs ls = Defined (device_write (snd r) 0 (fst r))"
    by (simp add: roll_forward_def read_def unat_block_size r_def split: prod.splits)
  show ?thesis
  proof (cases "\<not> failed s \<and> unat ?off < 2 ^ 63 \<and> unat ?off + kBlockSize \<le> length (bytes s)")
    case True
    then have "r = (span (bytes s) (unat ?off) kBlockSize, s)"
      using device_read_inside [of s ?off "replicate kBlockSize 0"] by (simp add: r_def)
    with True show ?thesis
      using device_write_inside [of s 0 "span (bytes s) (unat ?off) kBlockSize"]
      by (simp add: rf length_span)
  next
    case False
    have "failed (snd r) \<and> bytes (snd r) = bytes s"
    proof (cases "failed s")
      case True
      then show ?thesis
        by (simp add: r_def device_read_failed)
    next
      case good: False
      with False have "snd r = s\<lparr>failed := True\<rparr>"
        unfolding r_def by (intro device_read_outside) auto
      then show ?thesis by simp
    qed
    with False show ?thesis
      by (auto simp: rf device_write_failed)
  qed
qed

lemma read_block_at:
  assumes "\<not> failed s" and "unat (remap_sector logs sector * 512) + 4096 \<le> length (bytes s)"
    and "unat (remap_sector logs sector * 512) < 2 ^ 63"
  shows "read s logs True sector 4096
         = Defined (span (bytes s) (unat (remap_sector logs sector * 512)) 4096, s)"
  using read_one_block [of s logs sector]
    device_read_inside [of s "remap_sector logs sector * 512" "replicate kBlockSize 0"] assms
  by (simp add: read_sector_def kBlockSize_def)

text \<open>
  Validation accepts the entry of the first log sector, reads sector 0 again through the
  table, finds the sequence number 1 where 0 is due, and fails.
\<close>

lemma validation_mismatch:
  assumes "length dev = 16384"
    and "log_sector_of (span dev 0 4096) = \<lparr>magic = kMagic, count = 1, sequence = 1, sector0 = z\<rparr>"
    and "entry_at (span dev 0 4096) 0 = Defined entry_new"
  shows "sequence_loop True 1 \<lparr>st_status = ok, st_logs = [], st_device = fstream_open dev\<rparr>
   = Defined \<lparr>st_status = fromExceptionCode EINVAL ''Expecting log sector 0 but got 1'',
              st_logs = [entry_new], st_device = fstream_open dev\<rparr>"
proof -
  let ?st0 = "\<lparr>st_status = ok, st_logs = [], st_device = fstream_open dev\<rparr>"
  let ?st1 = "\<lparr>st_status = ok, st_logs = [entry_new], st_device = fstream_open dev\<rparr>"
  let ?buffer = "span dev 0 4096"
  have "restore_entry True entry_new ?st0 = Defined (?st0\<lparr>st_logs := st_logs ?st0 @ [entry_new]\<rparr>)"
    using assms(1) by (intro restore_entry_unchecked(1) [where dev = dev])
      (simp_all add: plain_entries checksum_entries)
  then have entries: "entries_loop True ?buffer (unat (count (log_sector_of ?buffer) - 1))
                        (?st0\<lparr>st_device := fstream_open dev\<rparr>) = Defined ?st1"
    by (simp add: assms)
  have first: "sequence_loop True 1 ?st0 = sequence_loop True 0 ?st1"
    using sequence_loop_step [of 1 ?st0 True ?buffer "fstream_open dev" ?st1] entries assms(1)
    by (simp add: read_header_4096 assms(2) isOk_ok kBlockSize_def)
  have "remap_sector [entry_new] 0 = 0"
    by (simp add: remap_sector_def remap_def covers_def entry_new_def)
  then have again: "read (fstream_open dev) [entry_new] True 0 4096
                      = Defined (?buffer, fstream_open dev)"
    using read_block_at [of "fstream_open dev" "[entry_new]" 0] assms(1)
    by (simp add: fstream_open_def)
  have "sequence_loop True 0 ?st1
          = Defined (?st1\<lparr>st_status := fromExceptionCode EINVAL
                      (''Expecting log sector '' @ to_string 0 @ '' but got ''
                         @ to_string_nat (unat (sequence (log_sector_of ?buffer)))),
                     st_device := fstream_open dev\<rparr>)"
    by (rule sequence_loop_wrong_sequence)
      (simp_all add: again assms(2) isOk_ok kBlockSize_def)
  with first show ?thesis
    by (simp add: assms(2) to_string_0 to_string_nat_1)
qed

text \<open>
  Claim C3, as amended: in the roll-forward after a failed validation the 4096-byte
  pre-image of block 0 is read directly from the device at the header field \<open>sector0\<close>
  (the read is made with \<open>validating = false\<close>: whatever entries the table holds, they do
  not remap it). It is written to sector 0 when the stream has not failed before and the
  4096 bytes at \<open>sector0\<close> lie inside the device; otherwise the stream is in its failed
  state, and nothing is written.
\<close>

theorem roll_forward_reads_directly:
  "roll_forward s logs ls
   = Defined
       (if \<not> failed s \<and> unat (sector0 ls * 512) < 2 ^ 63
             \<and> unat (sector0 ls * 512) + kBlockSize \<le> length (bytes s)
        then s\<lparr>bytes := overwrite (bytes s) 0 (span (bytes s) (unat (sector0 ls * 512)) kBlockSize)\<rparr>
        else s\<lparr>failed := True\<rparr>)"
proof -
  let ?off = "sector0 ls * 512"
  define r where "r = device_read s ?off (replicate kBlockSize 0)"
  have rf: "roll_forward s logs ls = Defined (device_write (snd r) 0 (fst r))"
    by (simp add: roll_forward_def read_def unat_block_size r_def split: prod.splits)
  show ?thesis
  proof (cases "failed s")
    case True
    then have "r = (replicate kBlockSize 0, s)"
      by (simp add: r_def device_read_failed)
    with True show ?thesis
      by (simp add: rf device_write_failed)
  next
    case good: False
    show ?thesis
    proof (cases "unat ?off < 2 ^ 63 \<and> unat ?off + kBlockSize \<le> length (bytes s)")
      case True
      then have "r = (span (bytes s) (unat ?off) kBlockSize, s)"
        using good device_read_inside [of s ?off "replicate kBlockSize 0"] by (simp add: r_def)
      with True good show ?thesis
        using device_write_inside [of s 0 "span (bytes s) (unat ?off) kBlockSize"]
        by (simp add: rf length_span)
    next
      case False
      then have "snd r = s\<lparr>failed := True\<rparr>"
        using good device_read_outside [of s ?off "replicate kBlockSize 0"]
        by (simp add: r_def)
      with False show ?thesis
        by (auto simp: rf device_write_failed)
    qed
  qed
qed

text \<open>
  On the devices with the wrong sequence number. Where \<open>sector0\<close> is 8 the block at
  sector 8 lands on sector 0; where it is 64, behind the end of the device, the read
  fails and the device stays as it is.
\<close>

theorem roll_forward_reads_directly_witness:
  "roll_forward (fstream_open dev_mismatch) [entry_new] (log_sector_of (span dev_mismatch 0 4096))
     = Defined (fstream_open (overwrite dev_mismatch 0 (span dev_mismatch 4096 4096)))
   \<and> roll_forward (fstream_open dev_far) [entry_new] (log_sector_of (span dev_far 0 4096))
       = Defined \<lparr>bytes = dev_far, failed = True\<rparr>"
  using roll_forward_reads_directly
    [of "fstream_open dev_mismatch" "[entry_new]" "log_sector_of (span dev_mismatch 0 4096)"]
    roll_forward_reads_directly
    [of "fstream_open dev_far" "[entry_new]" "log_sector_of (span dev_far 0 4096)"]
  by (simp add: header_mismatch kBlockSize_def fstream_open_def length_devices)

text \<open>
  Claim C3 as stated fails. On \<open>dev_mismatch\<close> validation fails with the table
  \<open>[entry_new]\<close>, and \<open>entry_new\<close> covers \<open>sector0 = 8\<close>: a read through the table
  would fetch the block at sector 16 (first byte \<open>0xBB\<close>), the roll-forward writes the
  block at sector 8 (first byte \<open>0xAA\<close>).
\<close>

theorem roll_forward_remap_counterexample:
  "sequence_loop True 1 \<lparr>st_status = ok, st_logs = [], st_device = fstream_open dev_mismatch\<rparr>
     = Defined \<lparr>st_status = fromExceptionCode EINVAL ''Expecting log sector 0 but got 1'',
                st_logs = [entry_new], st_device = fstream_open dev_mismatch\<rparr>
   \<and> sector0 (log_sector_of (span dev_mismatch 0 4096)) = 8
   \<and> roll_forward (fstream_open dev_mismatch) [entry_new] (log_sector_of (span dev_mismatch 0 4096))
       = Defined (fstream_open (overwrite dev_mismatch 0 (span dev_mismatch 4096 4096)))
   \<and> read (fstream_open dev_mismatch) [entry_new] True 8 4096
       = Defined (span dev_mismatch 8192 4096, fstream_open dev_mismatch)
   \<and> span dev_mismatch 4096 4096 ! 0 = 0xAA
   \<and> span dev_mismatch 8192 4096 ! 0 = 0xBB"
proof -
  have "remap_sector [entry_new] 8 = 16"
    by (simp add: remap_sector_def remap_def covers_def entry_new_def)
  then have "read (fstream_open dev_mismatch) [entry_new] True 8 4096
               = Defined (span dev_mismatch 8192 4096, fstream_open dev_mismatch)"
    using read_block_at [of "fstream_open dev_mismatch" "[entry_new]" 8]
    by (simp add: fstream_open_def length_devices)
  moreover have "span dev_mismatch 4096 4096 ! 0 = 0xAA"
    "span dev_mismatch 8192 4096 ! 0 = 0xBB"
    by (simp_all add: nth_span dev_mismatch_def length_device_of nth_device_of)
  moreover have "roll_forward (fstream_open dev_mismatch) [entry_new]
                   (log_sector_of (span dev_mismatch 0 4096))
                 = Defined (fstream_open (overwrite dev_mismatch 0 (span dev_mismatch 4096 4096)))"
    using device_read_inside [of "fstream_open dev_mismatch" 4096 "replicate 4096 0"]
      device_write_inside [of "fstream_open dev_mismatch" 0 "span dev_mismatch 4096 4096"]
    by (simp add: header_mismatch roll_forward_def read_direct kBlockSize_def fstream_open_def
        length_devices length_span)
  ultimately show ?thesis
    by (simp add: validation_mismatch [OF length_devices(2) header_mismatch(1) entry_mismatch(1)]
        header_mismatch)
qed

text \<open>
  Claim C2, as amended. Let \<open>buffer\<close> be what the first read of sector 0 gives. When it
  does not show the magic, \<open>cp_restoreCheckpoint\<close> returns the error \<open>EINVAL\<close>
  (\<open>No magic\<close>) and writes nothing. When it does and validation then fails (the magic or
  the sequence number of a log sector read later, or a checksum), the second pass is
  not run and the call returns success. Before that, the 4096 bytes at the header field
  \<open>sector0\<close> are written to sector 0 if no read of the validation has failed and those
  bytes lie inside the device; otherwise the stream is in its failed state and the
  device stays as it is. Nothing else is written.
\<close>

theorem failed_validation_rolls_forward:
  assumes "block_devices w blockDevice = Some dev"
    and "read (fstream_open dev) [] True 0 (of_nat kBlockSize) = Defined (buffer, s)"
  shows "(magic (log_sector_of buffer) \<noteq> kMagic
          \<longrightarrow> cp_restoreCheckpoint env w blockDevice
                = Defined (fromExceptionCode EINVAL ''No magic'', w))
       \<and> (magic (log_sector_of buffer) = kMagic
            \<and> sequence_loop True (sint (sequence (log_sector_of buffer)))
                  \<lparr>st_status = ok, st_logs = [], st_device = s\<rparr> = Defined st
            \<and> \<not> isOk (st_status st)
          \<longrightarrow> cp_restoreCheckpoint env w blockDevice
                = Defined (ok, w\<lparr>block_devices := (block_devices w)(blockDevice \<mapsto>
                    (if \<not> failed (st_device st)
                          \<and> unat (sector0 (log_sector_of buffer) * 512) < 2 ^ 63
                          \<and> unat (sector0 (log_sector_of buffer) * 512) + kBlockSize \<le> length dev
                     then overwrite dev 0
                            (span dev (unat (sector0 (log_sector_of buffer) * 512)) kBlockSize)
                     else dev))\<rparr>))"
proof (intro conjI impI)
  assume "magic (log_sector_of buffer) \<noteq> kMagic"
  with assms show "cp_restoreCheckpoint env w blockDevice
                     = Defined (fromExceptionCode EINVAL ''No magic'', w)"
    by (simp add: cp_restoreCheckpoint_def restore_pass_def)
next
  assume a: "magic (log_sector_of buffer) = kMagic
     \<and> sequence_loop True (sint (sequence (log_sector_of buffer)))
          \<lparr>st_status = ok, st_logs = [], st_device = s\<rparr> = Defined st
     \<and> \<not> isOk (st_status st)"
  from read_keeps(1) [OF assms(2)] have "bytes s = dev"
    by (simp add: fstream_open_def)
  with a have dev: "bytes (st_device st) = dev"
    using sequence_loop_validating_bytes
      [of True "sint (sequence (log_sector_of buffer))"
          "\<lparr>st_status = ok, st_logs = [], st_device = s\<rparr>" st]
    by simp
  from roll_forward_bytes [of "st_device st" "st_logs st" "log_sector_of buffer"]
  obtain s' where rf: "roll_forward (st_device st) (st_logs st) (log_sector_of buffer) = Defined s'"
    and bs: "bytes s' =
         (if \<not> failed (st_device st) \<and> unat (sector0 (log_sector_of buffer) * 512) < 2 ^ 63
               \<and> unat (sector0 (log_sector_of buffer) * 512) + kBlockSize \<le> length dev
          then overwrite dev 0 (span dev (unat (sector0 (log_sector_of buffer) * 512)) kBlockSize)
          else dev)"
    unfolding dev by blast
  from a assms rf have "cp_restoreCheckpoint env w blockDevice
     = Defined (ok, w\<lparr>block_devices := (block_devices w)(blockDevice \<mapsto> bytes s')\<rparr>)"
    by (simp add: cp_restoreCheckpoint_def restore_pass_def Let_def)
  then show "cp_restoreCheckpoint env w blockDevice
     = Defined (ok, w\<lparr>block_devices := (block_devices w)(blockDevice \<mapsto>
          (if \<not> failed (st_device st)
                \<and> unat (sector0 (log_sector_of buffer) * 512) < 2 ^ 63
                \<and> unat (sector0 (log_sector_of buffer) * 512) + kBlockSize \<le> length dev
           then overwrite dev 0
                  (span dev (unat (sector0 (log_sector_of buffer) * 512)) kBlockSize)
           else dev))\<rparr>)"
    unfolding bs .
qed

text \<open>
  The cases run: the blank device; the device with the wrong sequence number, whose
  block at sector 8 lands on sector 0; and the device whose \<open>sector0\<close> lies behind its
  end, where the read fails, the write is dropped, and success is returned all the same.
\<close>

theorem failed_validation_rolls_forward_witness:
  "cp_restoreCheckpoint env_a (world_device dev_blank) ''/dev/block/dm-1''
     = Defined (fromExceptionCode EINVAL ''No magic'', world_device dev_blank)
   \<and> cp_restoreCheckpoint env_a (world_device dev_mismatch) ''/dev/block/dm-1''
       = Defined (ok, world_device (overwrite dev_mismatch 0 (span dev_mismatch 4096 4096)))
   \<and> cp_restoreCheckpoint env_a (world_device dev_far) ''/dev/block/dm-1''
       = Defined (ok, world_device dev_far)"
proof -
  let ?st = "\<lambda>dev. \<lparr>st_status = fromExceptionCode EINVAL ''Expecting log sector 0 but got 1'',
              st_logs = [entry_new], st_device = fstream_open dev\<rparr>"
  have rd: "\<And>dev. length dev = 16384
              \<Longrightarrow> read (fstream_open dev) [] True 0 (of_nat kBlockSize)
                    = Defined (span dev 0 4096, fstream_open dev)"
    by (simp add: read_header_4096 kBlockSize_def)
  have blank: "magic (log_sector_of (span dev_blank 0 4096)) \<noteq> kMagic"
    by (simp add: log_sector_of_def le32_def nth_span dev_blank_def length_device_of
        nth_device_of kMagic_def)
  have fails: "magic (log_sector_of (span dev_mismatch 0 4096)) = kMagic
     \<and> sequence_loop True (sint (sequence (log_sector_of (span dev_mismatch 0 4096))))
          \<lparr>st_status = ok, st_logs = [], st_device = fstream_open dev_mismatch\<rparr>
         = Defined (?st dev_mismatch)
     \<and> \<not> isOk (st_status (?st dev_mismatch))"
    by (simp add: header_mismatch not_isOk_EINVAL
        validation_mismatch [OF length_devices(2) header_mismatch(1) entry_mismatch(1)])
  have fails_far: "magic (log_sector_of (span dev_far 0 4096)) = kMagic
     \<and> sequence_loop True (sint (sequence (log_sector_of (span dev_far 0 4096))))
          \<lparr>st_status = ok, st_logs = [], st_device = fstream_open dev_far\<rparr>
         = Defined (?st dev_far)
     \<and> \<not> isOk (st_status (?st dev_far))"
    by (simp add: header_mismatch not_isOk_EINVAL
        validation_mismatch [OF length_devices(3) header_mismatch(2) entry_mismatch(2)])
  from failed_validation_rolls_forward
    [where w = "world_device dev_blank" and env = env_a,
      OF world_device_lookup rd [OF length_devices(1)]] blank
  have a: "cp_restoreCheckpoint env_a (world_device dev_blank) ''/dev/block/dm-1''
             = Defined (fromExceptionCode EINVAL ''No magic'', world_device dev_blank)"
    by simp
  from failed_validation_rolls_forward
    [where w = "world_device dev_mismatch" and env = env_a and st = "?st dev_mismatch",
      OF world_device_lookup rd [OF length_devices(2)]] fails
  have b: "cp_restoreCheckpoint env_a (world_device dev_mismatch) ''/dev/block/dm-1''
             = Defined (ok, world_device (overwrite dev_mismatch 0 (span dev_mismatch 4096 4096)))"
    by (simp add: kBlockSize_def header_mismatch world_device_update fstream_open_def
        length_devices)
  from failed_validation_rolls_forward
    [where w = "world_device dev_far" and env = env_a and st = "?st dev_far",
      OF world_device_lookup rd [OF length_devices(3)]] fails_far
  have c: "cp_restoreCheckpoint env_a (world_device dev_far) ''/dev/block/dm-1''
             = Defined (ok, world_device dev_far)"
    by (simp add: kBlockSize_def header_mismatch world_device_update fstream_open_def
        length_devices)
  from a b c show ?thesis by simp
qed

text \<open>
  Claim C2 as stated fails: on a device whose sector 0 does not show the magic, the
  first pass fails at its first read and the call returns an error, not success; sector
  0 is not written.
\<close>

theorem first_magic_mismatch_counterexample:
  "magic (log_sector_of (span dev_blank 0 4096)) \<noteq> kMagic
   \<and> cp_restoreCheckpoint env_a (world_device dev_blank) ''/dev/block/dm-1''
       = Defined (fromExceptionCode EINVAL ''No magic'', world_device dev_blank)
   \<and> \<not> isOk (fromExceptionCode EINVAL ''No magic'')"
proof -
  have blank: "magic (log_sector_of (span dev_blank 0 4096)) \<noteq> kMagic"
    by (simp add: log_sector_of_def le32_def nth_span dev_blank_def length_device_of
        nth_device_of kMagic_def)
  then show ?thesis
    by (simp add: cp_restoreCheckpoint_def restore_pass_def read_header_4096 world_device_lookup
        kBlockSize_def length_devices not_isOk_EINVAL)
qed

subsection \<open>An entry whose size is not a multiple of the block size\<close>

lemma header_short:
  "log_sector_of (span dev_short 0 4096)
     = \<lparr>magic = kMagic, count = 1, sequence = 0, sector0 = 0\<rparr>"
  by (simp add: log_sector_of_def le32_def le64_def nth_span length_device_of
      dev_short_def nth_device_of kMagic_def)

lemma entry_of_short:
  "entry_at (span dev_short 0 4096) 0 = Defined entry_short"
  by (simp add: entry_at_def le32_def le64_def nth_span length_span length_device_of
      dev_short_def nth_device_of entry_short_def)

lemma read_blocks_overrun:
  assumes "length buffer = sz" and "kBlockSize dvd i" and "i \<le> sz" and "\<not> kBlockSize dvd sz"
  shows "read_blocks s logs sz i sector buffer = Undefined"
  using assms
proof (induction "sz - i" arbitrary: i sector buffer s rule: less_induct)
  case less
  from less.prems have "i \<noteq> sz" by auto
  with less.prems have lt: "i < sz" by simp
  show ?case
  proof (cases "i + kBlockSize \<le> length buffer")
    case False
    with lt show ?thesis by (subst read_blocks.simps) simp
  next
    case True
    define r where "r = read_sector s logs sector (span buffer i kBlockSize)"
    define buffer1 where "buffer1 = overwrite buffer i (fst r)"
    have "length (fst r) = kBlockSize"
      using True by (simp add: r_def length_read_sector length_span)
    then have len1: "length buffer1 = sz"
      using True less.prems(1) by (simp add: buffer1_def length_overwrite)
    have "read_blocks s logs sz i sector buffer
            = read_blocks (snd r) logs sz (i + kBlockSize) (sector + 8) buffer1"
      using lt True by (subst read_blocks.simps) (simp add: buffer1_def r_def)
    also have "\<dots> = Undefined"
    proof (rule less.hyps)
      show "sz - (i + kBlockSize) < sz - i"
        using lt by (simp add: kBlockSize_def)
      show "length buffer1 = sz" by (rule len1)
      show "kBlockSize dvd i + kBlockSize"
        using less.prems(2) by simp
      show "i + kBlockSize \<le> sz"
        using True less.prems(1) by simp
      show "\<not> kBlockSize dvd sz" by (rule less.prems(4))
    qed
    finally show ?thesis .
  qed
qed

lemma crc32_blocks_overrun:
  assumes "length buffer = sz" and "kBlockSize dvd i" and "i \<le> sz" and "\<not> kBlockSize dvd sz"
  shows "crc32_blocks buffer sz i crc = Undefined"
  using assms
proof (induction "sz - i" arbitrary: i crc rule: less_induct)
  case less
  from less.prems have "i \<noteq> sz" by auto
  with less.prems have lt: "i < sz" by simp
  show ?case
  proof (cases "i + kBlockSize \<le> length buffer")
    case False
    with lt show ?thesis by (subst crc32_blocks.simps) simp
  next
    case True
    have "crc32_blocks buffer sz i crc
            = crc32_blocks buffer sz (i + kBlockSize) (crc32 (drop i buffer) kBlockSize crc)"
      using lt True by (subst crc32_blocks.simps) simp
    also have "\<dots> = Undefined"
    proof (rule less.hyps)
      show "sz - (i + kBlockSize) < sz - i"
        using lt by (simp add: kBlockSize_def)
      show "length buffer = sz" by (rule less.prems(1))
      show "kBlockSize dvd i + kBlockSize"
        using less.prems(2) by simp
      show "i + kBlockSize \<le> sz"
        using True less.prems(1) by simp
      show "\<not> kBlockSize dvd sz" by (rule less.prems(4))
    qed
    finally show ?thesis .
  qed
qed

text \<open>
  Claim C5 says that an entry whose size is not a multiple of 4096 is treated as
  \<open>InvalidFormat\<close>. The code has no test of the size, and no status comes out of such
  an entry: the validating read stores whole blocks of 4096 bytes into a buffer of
  \<open>size\<close> bytes, and the checksum loop of the second pass reads whole blocks from it, so
  the last step leaves the buffer. This holds in every state of the stream.
\<close>

theorem misaligned_entry_overruns:
  assumes "\<not> kBlockSize dvd unat (size_le le)"
  shows "restore_entry validating le st = Undefined"
proof (cases validating)
  case True
  have "read_blocks (st_device st) (st_logs st) (unat (size_le le)) 0 (dest le)
          (replicate (unat (size_le le)) 0) = Undefined"
    by (rule read_blocks_overrun) (simp_all add: assms)
  with True show ?thesis
    by (simp add: restore_entry_def read_def)
next
  case False
  obtain buffer s where r: "device_read (st_device st) (dest le * 512)
                              (replicate (unat (size_le le)) 0) = (buffer, s)"
    by (cases "device_read (st_device st) (dest le * 512) (replicate (unat (size_le le)) 0)")
  have "length buffer = unat (size_le le)"
    using length_device_read [of "st_device st" "dest le * 512" "replicate (unat (size_le le)) 0"]
    by (simp add: r)
  then have "crc32_blocks buffer (unat (size_le le)) 0 (ucast (source le div 8)) = Undefined"
    by (intro crc32_blocks_overrun) (simp_all add: assms)
  with False show ?thesis
    by (simp add: restore_entry_def read_direct payload_checksum_def r)
qed

text \<open>The entry of 100 bytes on \<open>dev_short\<close>, and the whole restore of that device.\<close>

theorem misaligned_entry_overruns_witness:
  "size_le entry_short = 100
   \<and> entry_at (span dev_short 0 4096) 0 = Defined entry_short
   \<and> restore_entry True entry_short
        \<lparr>st_status = ok, st_logs = [], st_device = fstream_open dev_short\<rparr> = Undefined
   \<and> cp_restoreCheckpoint env_a (world_device dev_short) ''/dev/block/dm-1'' = Undefined"
proof -
  let ?st0 = "\<lparr>st_status = ok, st_logs = [], st_device = fstream_open dev_short\<rparr>"
  let ?buffer = "span dev_short 0 4096"
  have "\<not> kBlockSize dvd unat (size_le entry_short)"
    by (simp add: entry_short_def kBlockSize_def)
  from misaligned_entry_overruns [OF this, of True ?st0]
  have entry: "restore_entry True entry_short ?st0 = Undefined" .
  then have "entries_loop True ?buffer (unat (count (log_sector_of ?buffer) - 1))
               (?st0\<lparr>st_device := fstream_open dev_short\<rparr>) = Undefined"
    by (simp add: header_short entry_of_short)
  then have "sequence_loop True 0 ?st0 = Undefined"
    by (intro sequence_loop_undefined [where buffer = ?buffer and s = "fstream_open dev_short"])
      (simp_all add: read_header_4096 header_short isOk_ok kBlockSize_def length_devices)
  then have "cp_restoreCheckpoint env_a (world_device dev_short) ''/dev/block/dm-1'' = Undefined"
    by (simp add: cp_restoreCheckpoint_def restore_pass_def read_header_4096 header_short
        world_device_lookup kBlockSize_def length_devices)
  with entry show ?thesis
    by (simp add: entry_of_short) (simp add: entry_short_def)
qed

subsection \<open>Restoring twice\<close>





































end
